theory Spec2Isabelle
  imports Main "HOL-Library.Char_ord" "HOL-Library.Sublist"
begin

section \<open>Python strings\<close>

text \<open>
  A Python \<open>str\<close> is modelled as a \<open>string\<close>: a list of characters, one \<open>char\<close> per code
  point, for the code points below 256 (Latin-1). The character classes below list the members
  that Python 3 gives them in that range.
\<close>

text \<open>\<open>str.isspace\<close> on one character, which is also the class \<open>\s\<close> of \<open>re\<close>.\<close>

definition isspace :: "char \<Rightarrow> bool" where
  "isspace c = (c \<in> set [CHR 0x09, CHR 0x0A, CHR 0x0B, CHR 0x0C, CHR 0x0D,
                           CHR 0x1C, CHR 0x1D, CHR 0x1E, CHR 0x1F, CHR '' '',
                           CHR 0x85, CHR 0xA0])"

text \<open>A character range \<open>[lo-hi]\<close> of a regular expression.\<close>

definition in_range :: "char \<Rightarrow> char \<Rightarrow> char \<Rightarrow> bool" where
  "in_range lo hi c = (lo \<le> c \<and> c \<le> hi)"

text \<open>The class \<open>\w\<close> of \<open>re\<close> on a \<open>str\<close> pattern: alphanumeric characters and the underscore.\<close>

definition word_char :: "char \<Rightarrow> bool" where
  "word_char c =
     (in_range CHR ''0'' CHR ''9'' c \<or> in_range CHR ''A'' CHR ''Z'' c \<or> c = CHR ''_'' \<or>
      in_range CHR ''a'' CHR ''z'' c \<or> c = CHR 0xAA \<or> in_range CHR 0xB2 CHR 0xB3 c \<or>
      c = CHR 0xB5 \<or> in_range CHR 0xB9 CHR 0xBA c \<or> in_range CHR 0xBC CHR 0xBE c \<or>
      in_range CHR 0xC0 CHR 0xD6 c \<or> in_range CHR 0xD8 CHR 0xF6 c \<or>
      in_range CHR 0xF8 CHR 0xFF c)"

text \<open>\<open>s.strip()\<close>: leading and trailing whitespace removed.\<close>

definition strip :: "string \<Rightarrow> string" where
  "strip s = rev (dropWhile isspace (rev (dropWhile isspace s)))"

text \<open>\<open>s.replace(' ', '-')\<close>.\<close>

definition replace_space_dash :: "string \<Rightarrow> string" where
  "replace_space_dash s = map (\<lambda>c. if c = CHR '' '' then CHR ''-'' else c) s"

text \<open>\<open>sep.join(xs)\<close>.\<close>

fun join :: "string \<Rightarrow> string list \<Rightarrow> string" where
  "join sep [] = []"
| "join sep [x] = x"
| "join sep (x # y # ys) = x @ sep @ join sep (y # ys)"

text \<open>\<open>os.path.join(d, name)\<close> for a relative \<open>name\<close> and a directory not ending in a slash.\<close>

definition path_join :: "string \<Rightarrow> string \<Rightarrow> string" where
  "path_join d name = d @ ''/'' @ name"

section \<open>Removing markup: \<open>re.sub(r'<[^>]+>', '', s)\<close>\<close>

text \<open>
  \<open>match_tag s\<close> matches the pattern \<open><[^>]+>\<close> at the start of \<open>s\<close> and returns what follows
  the match. The class \<open>[^>]\<close> accepts every character but \<open>>\<close> (a newline too), so the greedy
  \<open>[^>]+\<close> takes the longest run without \<open>>\<close>; the match exists when that run is not empty and
  a \<open>>\<close> follows it.
\<close>

fun match_tag :: "string \<Rightarrow> string option" where
  "match_tag [] = None"
| "match_tag (c # cs) =
     (if c = CHR ''<'' \<and> takeWhile (\<lambda>d. d \<noteq> CHR ''>'') cs \<noteq> []
      then (case dropWhile (\<lambda>d. d \<noteq> CHR ''>'') cs of [] \<Rightarrow> None | _ # rest \<Rightarrow> Some rest)
      else None)"

lemma match_tag_shorter: "match_tag s = Some rest \<Longrightarrow> length rest < length s"
proof (cases s)
  case Nil
  assume "match_tag s = Some rest"
  with Nil show ?thesis by simp
next
  case (Cons c cs)
  assume m: "match_tag s = Some rest"
  from m Cons obtain g where d: "dropWhile (\<lambda>d. d \<noteq> CHR ''>'') cs = g # rest"
    by (auto split: if_splits list.splits)
  have "length (dropWhile (\<lambda>d. d \<noteq> CHR ''>'') cs) \<le> length cs"
    by (rule length_dropWhile_le)
  with d Cons show ?thesis by simp
qed

text \<open>
  \<open>re.sub\<close> scans from the left: where the pattern matches, the match is dropped and the scan
  goes on after it; elsewhere the character is kept and the scan moves one character on.
\<close>

function re_sub_tags :: "string \<Rightarrow> string" where
  "re_sub_tags [] = []"
| "re_sub_tags (c # cs) =
     (case match_tag (c # cs) of
        Some rest \<Rightarrow> re_sub_tags rest
      | None \<Rightarrow> c # re_sub_tags cs)"
  by pat_completeness auto
termination
proof (relation "measure length")
  show "wf (measure length)" by simp
next
  fix c cs rest
  assume "match_tag (c # cs) = Some rest"
  then have "length rest < length (c # cs)" by (rule match_tag_shorter)
  then show "(rest, c # cs) \<in> measure length" by simp
next
  fix c :: char and cs :: string
  show "(cs, c # cs) \<in> measure length" by simp
qed

text \<open>The cleaning of one caption text: \<open>re.sub(r'<[^>]+>', '', caption.text).strip()\<close>.\<close>

definition clean_text :: "string \<Rightarrow> string" where
  "clean_text s = strip (re_sub_tags s)"


section \<open>Captions and the transcript\<close>

text \<open>
  A cue as \<open>webvtt\<close> returns it: its two timestamps and its text. The code reads the text only.
\<close>

record caption =
  start_time :: string
  end_time :: string
  caption_text :: string

text \<open>An exception of Python, with the message it carries.\<close>

datatype exn = DownloadError string | OtherException string

text \<open>
  The loop of \<open>convert_subtitles_to_text\<close> over \<open>enumerate(captions)\<close>: \<open>idx\<close> is the position
  of the next caption and \<open>transcript\<close> the list built so far.
\<close>

fun collect_transcript :: "nat \<Rightarrow> caption list \<Rightarrow> string list \<Rightarrow> string list" where
  "collect_transcript idx [] transcript = transcript"
| "collect_transcript idx (caption # captions) transcript =
     (let cleaned = clean_text (caption_text caption) in
      collect_transcript (Suc idx) captions
        (if cleaned \<noteq> [] \<and> idx mod 2 = 0 then transcript @ [cleaned] else transcript))"

text \<open>
  \<open>convert_subtitles_to_text(subtitle_path)\<close>. The argument \<open>webvtt_read\<close> stands for the
  library call \<open>webvtt.read\<close>: \<open>Inl e\<close> when it raises, \<open>Inr captions\<close> when it parses the file.
\<close>

definition convert_subtitles_to_text :: "(string \<Rightarrow> exn + caption list) \<Rightarrow> string \<Rightarrow> string" where
  "convert_subtitles_to_text webvtt_read subtitle_path =
     (case webvtt_read subtitle_path of
        Inl e \<Rightarrow> []
      | Inr captions \<Rightarrow> join ''\<newline>'' (collect_transcript 0 captions []))"

section \<open>Validating the URL\<close>

text \<open>
  A regular expression is modelled by the function that gives, for an input, the rests left
  after each way the expression can match at the start of the input, in the order in which
  the backtracking engine of \<open>re\<close> tries them. The expression matches when there is such a rest.
\<close>

type_synonym matcher = "string \<Rightarrow> string list"

text \<open>A literal text.\<close>

definition re_lit :: "string \<Rightarrow> matcher" where
  "re_lit p s = (if take (length p) s = p then [drop (length p) s] else [])"

text \<open>\<open>(r)?\<close>: with \<open>r\<close> first, then without.\<close>

definition re_opt :: "matcher \<Rightarrow> matcher" where
  "re_opt r s = r s @ [s]"

text \<open>\<open>r1|r2\<close> and \<open>r1 r2\<close>.\<close>

definition re_alt :: "matcher \<Rightarrow> matcher \<Rightarrow> matcher" where
  "re_alt r1 r2 s = r1 s @ r2 s"

definition re_seq :: "matcher \<Rightarrow> matcher \<Rightarrow> matcher" where
  "re_seq r1 r2 s = concat (map r2 (r1 s))"

text \<open>\<open>[class]{n}\<close>: exactly \<open>n\<close> characters of the class.\<close>

definition re_repeat :: "nat \<Rightarrow> (char \<Rightarrow> bool) \<Rightarrow> matcher" where
  "re_repeat n P s = (if n \<le> length s \<and> list_all P (take n s) then [drop n s] else [])"

text \<open>\<open>[class]*\<close>, greedy: the longest run first, then each shorter one.\<close>

fun re_star :: "(char \<Rightarrow> bool) \<Rightarrow> matcher" where
  "re_star P [] = [[]]"
| "re_star P (c # cs) = (if P c then re_star P cs @ [c # cs] else [c # cs])"

text \<open>
  \<open>$\<close> without the MULTILINE flag: at the end of the string, and also just before a newline
  that is the last character of the string.
\<close>

definition re_end :: matcher where
  "re_end s = (if s = [] \<or> s = ''\<newline>'' then [s] else [])"

text \<open>
  The pattern of \<open>is_valid_youtube_url\<close>:
  \<^verbatim>\<open>^(https?://)?(www\.)?(youtube\.com/watch\?v=|youtu\.be/)[\w-]{11}(&\S*)?$\<close>.
  \<open>re.match\<close> matches at the start of the string, where \<open>^\<close> holds.
\<close>

definition youtube_regex :: matcher where
  "youtube_regex =
     re_seq (re_opt (re_seq (re_lit ''http'') (re_seq (re_opt (re_lit ''s'')) (re_lit ''://''))))
    (re_seq (re_opt (re_lit ''www.''))
    (re_seq (re_alt (re_lit ''youtube.com/watch?v='') (re_lit ''youtu.be/''))
    (re_seq (re_repeat 11 (\<lambda>c. word_char c \<or> c = CHR ''-''))
    (re_seq (re_opt (re_seq (re_lit ''&'') (re_star (\<lambda>c. \<not> isspace c))))
            re_end))))"

definition is_valid_youtube_url :: "string \<Rightarrow> bool" where
  "is_valid_youtube_url url = (youtube_regex url \<noteq> [])"

section \<open>File names and titles\<close>

text \<open>
  \<open>sanitize_filename\<close>: spaces become dashes, then the characters of the class
  \<^verbatim>\<open>[\\/*?:"<>|]\<close> are removed.
\<close>

definition invalid_filename_chars :: "char list" where
  "invalid_filename_chars =
     [CHR 0x5C, CHR ''/'', CHR ''*'', CHR ''?'', CHR '':'', CHR 0x22, CHR ''<'', CHR ''>'',
      CHR ''|'']"

definition sanitize_filename :: "string \<Rightarrow> string" where
  "sanitize_filename title =
     filter (\<lambda>c. c \<notin> set invalid_filename_chars) (replace_space_dash title)"

text \<open>
  What \<open>extract_info\<close> returns, as far as the code reads it. \<open>title\<close> is \<open>None\<close> when the key is
  absent. The two dictionaries map a language code to the tracks offered for it.
\<close>

record info =
  title :: "string option"
  subtitles :: "string \<rightharpoonup> string list"
  automatic_captions :: "string \<rightharpoonup> string list"

text \<open>The class \<^verbatim>\<open>[a-zA-Z0-9\-]\<close>, whose complement \<open>fetch_transcript\<close> removes from the title.\<close>

definition title_char :: "char \<Rightarrow> bool" where
  "title_char c =
     (in_range CHR ''a'' CHR ''z'' c \<or> in_range CHR ''A'' CHR ''Z'' c \<or>
      in_range CHR ''0'' CHR ''9'' c \<or> c = CHR ''-'')"

text \<open>
  The title that \<open>fetch_transcript\<close> derives:
  \<^verbatim>\<open>info.get('title', 'video').strip().replace(' ', '-')\<close>, then
  \<^verbatim>\<open>re.sub(r'[^a-zA-Z0-9\-]', '', video_title)\<close>, then \<^verbatim>\<open>video_title[:50]\<close>.
\<close>

definition max_length :: nat where
  "max_length = 50"

definition video_title_of :: "info \<Rightarrow> string" where
  "video_title_of i =
     take max_length
       (filter title_char
          (replace_space_dash (strip (case title i of None \<Rightarrow> ''video'' | Some t \<Rightarrow> t))))"

section \<open>Subtitle availability\<close>

text \<open>
  Step 2 of \<open>fetch_transcript\<close>: the three variables that the branches set, or \<open>None\<close> where
  the function returns \<open>None\<close>.
\<close>

record selection =
  subtitle_type :: string
  download_subtitles :: bool
  write_automaticsub :: bool

definition select_subtitles :: "info \<Rightarrow> string \<Rightarrow> selection option" where
  "select_subtitles i language =
     (if subtitles i language \<noteq> None then
        Some \<lparr>subtitle_type = ''user-provided'', download_subtitles = True,
              write_automaticsub = False\<rparr>
      else if automatic_captions i language \<noteq> None then
        Some \<lparr>subtitle_type = ''auto-generated'', download_subtitles = True,
              write_automaticsub = True\<rparr>
      else None)"

text \<open>The three outcomes that the specification names for this step.\<close>

datatype availability = UseUserProvided | UseAutoGenerated | Unavailable

definition availability_of :: "selection option \<Rightarrow> availability" where
  "availability_of r =
     (case r of
        None \<Rightarrow> Unavailable
      | Some sel \<Rightarrow> if write_automaticsub sel then UseAutoGenerated else UseUserProvided)"

section \<open>The world outside the program\<close>

text \<open>The entries of \<open>CONFIG\<close> that the pipeline reads.\<close>

definition SUBTITLES_DIR :: string where
  "SUBTITLES_DIR = ''temp_subtitles''"

definition OUTPUT_DIR :: string where
  "OUTPUT_DIR = ''data/transcripts''"

text \<open>The options handed to \<open>YoutubeDL\<close> for the download of step 4.\<close>

record ydl_opts =
  skip_download :: bool
  writesubtitles :: bool
  writeautomaticsub :: bool
  subtitleslangs :: "string list"
  subtitlesformat :: string
  outtmpl :: string
  quiet :: bool
  no_warnings :: bool

text \<open>A call to the video platform: the metadata lookup, or the download of a caption track.\<close>

datatype call = ExtractInfo string | DownloadSubtitles string ydl_opts

text \<open>
  The state that the program changes: the files with their contents, the directories, and
  the calls made to the video platform so far, the latest last.
\<close>

record world =
  files :: "string \<rightharpoonup> string"
  dirs :: "string set"
  calls :: "call list"

text \<open>
  What the libraries and the operating system answer. \<open>ydl_extract_info url\<close> is
  \<open>extract_info(url, download=False)\<close>; \<open>ydl_download opts url\<close> is
  \<open>extract_info(url, download=True)\<close> and gives the files it writes; \<open>webvtt_parse\<close> parses the
  content of a caption file. \<open>makedirs_error\<close>, \<open>remove_error\<close> and \<open>open_error\<close> give the exception,
  if any, that \<open>os.makedirs\<close>, \<open>os.remove\<close> and \<open>open(path, 'w')\<close> raise for a path;
  \<open>write_error\<close> gives the exception, if any, that \<open>f.write\<close> raises, with the number of
  characters that reached the file before it.
\<close>

record env =
  ydl_extract_info :: "string \<Rightarrow> exn + info"
  ydl_download :: "ydl_opts \<Rightarrow> string \<Rightarrow> exn + (string \<rightharpoonup> string)"
  webvtt_parse :: "string \<Rightarrow> exn + caption list"
  makedirs_error :: "string \<Rightarrow> exn option"
  remove_error :: "string \<Rightarrow> exn option"
  open_error :: "string \<Rightarrow> exn option"
  write_error :: "string \<Rightarrow> (exn \<times> nat) option"

text \<open>\<open>os.path.exists\<close>, \<open>os.makedirs\<close>, \<open>os.remove\<close>, \<open>webvtt.read\<close>, and the writing of a file:
  \<open>open(path, 'w')\<close> creates or empties the file before \<open>f.write\<close> fills it, so a failed write leaves
  the file with what was written before the exception. \<open>write_file\<close> gives the exception raised,
  if any, and the world after it.\<close>

definition path_exists :: "world \<Rightarrow> string \<Rightarrow> bool" where
  "path_exists w p = (files w p \<noteq> None \<or> p \<in> dirs w)"

definition makedirs :: "env \<Rightarrow> string \<Rightarrow> world \<Rightarrow> exn + world" where
  "makedirs e d w =
     (case makedirs_error e d of
        Some err \<Rightarrow> Inl err
      | None \<Rightarrow> Inr (w\<lparr>dirs := insert d (dirs w)\<rparr>))"

definition os_remove :: "env \<Rightarrow> string \<Rightarrow> world \<Rightarrow> exn + world" where
  "os_remove e p w =
     (if files w p = None then Inl (OtherException ''FileNotFoundError'')
      else case remove_error e p of
             Some err \<Rightarrow> Inl err
           | None \<Rightarrow> Inr (w\<lparr>files := (files w)(p := None)\<rparr>))"

definition write_file :: "env \<Rightarrow> string \<Rightarrow> string \<Rightarrow> world \<Rightarrow> exn option \<times> world" where
  "write_file e p content w =
     (case open_error e p of
        Some err \<Rightarrow> (Some err, w)
      | None \<Rightarrow>
          (case write_error e p of
             Some (err, n) \<Rightarrow> (Some err, w\<lparr>files := (files w)(p \<mapsto> take n content)\<rparr>)
           | None \<Rightarrow> (None, w\<lparr>files := (files w)(p \<mapsto> content)\<rparr>)))"

definition webvtt_read :: "env \<Rightarrow> world \<Rightarrow> string \<Rightarrow> exn + caption list" where
  "webvtt_read e w p =
     (case files w p of
        None \<Rightarrow> Inl (OtherException ''FileNotFoundError'')
      | Some content \<Rightarrow> webvtt_parse e content)"

section \<open>The pipeline\<close>

text \<open>
  Step 3 of \<open>fetch_transcript\<close>: the options of the download, from the derived title, the
  selection of step 2 and the language.
\<close>

definition download_opts :: "string \<Rightarrow> selection \<Rightarrow> string \<Rightarrow> ydl_opts" where
  "download_opts video_title sel language =
     \<lparr>skip_download = True,
      writesubtitles = download_subtitles sel,
      writeautomaticsub = write_automaticsub sel,
      subtitleslangs = [language],
      subtitlesformat = ''vtt'',
      outtmpl = path_join SUBTITLES_DIR (sanitize_filename video_title @ ''.%(ext)s''),
      quiet = True,
      no_warnings = True\<rparr>"

text \<open>Step 5: the path at which the downloaded caption file is expected.\<close>

definition subtitle_path_of :: "string \<Rightarrow> string \<Rightarrow> string" where
  "subtitle_path_of video_title language =
     (let subtitle_filename = video_title @ ''.'' @ language @ ''.vtt''
      in path_join SUBTITLES_DIR subtitle_filename)"

text \<open>
  \<open>fetch_transcript(url, language)\<close>. The result is \<open>Inl e\<close> when an exception leaves the
  function (only \<open>os.makedirs\<close> is called outside a \<open>try\<close>), \<open>Inr None\<close> when it returns
  \<open>None\<close>, and \<open>Inr (Some (transcript_text, video_title))\<close> when it returns the pair.
\<close>

definition fetch_transcript ::
  "env \<Rightarrow> string \<Rightarrow> string \<Rightarrow> world \<Rightarrow> (exn + (string \<times> string) option) \<times> world" where
  "fetch_transcript e url language w0 =
     (let w1 = w0\<lparr>calls := calls w0 @ [ExtractInfo url]\<rparr> in
      case ydl_extract_info e url of
        Inl err \<Rightarrow> (Inr None, w1)
      | Inr i \<Rightarrow>
          (let video_title = video_title_of i in
           case select_subtitles i language of
             None \<Rightarrow> (Inr None, w1)
           | Some sel \<Rightarrow>
               (let opts = download_opts video_title sel language in
                case (if \<not> path_exists w1 SUBTITLES_DIR then makedirs e SUBTITLES_DIR w1
                      else Inr w1) of
                  Inl err \<Rightarrow> (Inl err, w1)
                | Inr w2 \<Rightarrow>
                    (let w3 = w2\<lparr>calls := calls w2 @ [DownloadSubtitles url opts]\<rparr> in
                     case ydl_download e opts url of
                       Inl err \<Rightarrow> (Inr None, w3)
                     | Inr written \<Rightarrow>
                         (let w4 = w3\<lparr>files := files w3 ++ written\<rparr>;
                              subtitle_path = subtitle_path_of video_title language in
                          if \<not> path_exists w4 subtitle_path then (Inr None, w4)
                          else
                            (let transcript_text =
                                   convert_subtitles_to_text (webvtt_read e w4) subtitle_path;
                                 w5 = (case os_remove e subtitle_path w4 of
                                         Inl err \<Rightarrow> w4
                                       | Inr w \<Rightarrow> w) in
                             (Inr (Some (transcript_text, video_title)), w5)))))))"

text \<open>
  \<open>save_transcript(transcript, video_title)\<close>: the whole body is inside a \<open>try\<close>, so an
  exception is logged and leaves the world as it was when it was raised.
\<close>

definition save_transcript :: "env \<Rightarrow> string \<Rightarrow> string \<Rightarrow> world \<Rightarrow> world" where
  "save_transcript e transcript video_title w =
     (case (if \<not> path_exists w OUTPUT_DIR then makedirs e OUTPUT_DIR w else Inr w) of
        Inl err \<Rightarrow> w
      | Inr w1 \<Rightarrow>
          (let filename = take 50 (sanitize_filename video_title);
               output_path = path_join OUTPUT_DIR (filename @ ''.txt'') in
           case write_file e output_path transcript w1 of
             (Some err, w2) \<Rightarrow> w2
           | (None, w2) \<Rightarrow> w2))"

text \<open>
  \<open>process_url(url, language)\<close>: \<open>Inr (Some video_title)\<close> when the transcript was saved,
  \<open>Inr None\<close> for each \<open>return\<close> without a title. A pair is a true value in Python, so
  \<open>if result\<close> tells the pair from \<open>None\<close>; \<open>if transcript\<close> tells the empty text from the rest.
\<close>

definition process_url ::
  "env \<Rightarrow> string \<Rightarrow> string \<Rightarrow> world \<Rightarrow> (exn + string option) \<times> world" where
  "process_url e url language w =
     (if \<not> is_valid_youtube_url url then (Inr None, w)
      else
        case fetch_transcript e url language w of
          (Inl err, w') \<Rightarrow> (Inl err, w')
        | (Inr None, w') \<Rightarrow> (Inr None, w')
        | (Inr (Some (transcript, video_title)), w') \<Rightarrow>
            if transcript \<noteq> [] then
              (Inr (Some video_title), save_transcript e transcript video_title w')
            else (Inr None, w'))"

section \<open>The words of the specification, and example inputs\<close>

text \<open>
  The cleaning of a cue text in the words of the specification: inline markup, that is
  anything enclosed in angle brackets, is removed, then the surrounding whitespace. It is
  written without the functions of the code. Markup is read in one pass from the left: a tag
  opens at \<open><\<close> and closes at the next \<open>>\<close>; \<open>delete_tags_from\<close> carries the characters read since
  the opening bracket, if a tag is open. A tag holds at least one character: the text \<open><>\<close>
  is not markup, and an opening bracket that is never closed is text.
\<close>

fun delete_tags_from :: "string option \<Rightarrow> string \<Rightarrow> string" where
  "delete_tags_from None [] = []"
| "delete_tags_from None (c # cs) =
     (if c = CHR ''<'' then delete_tags_from (Some []) cs else c # delete_tags_from None cs)"
| "delete_tags_from (Some body) [] = CHR ''<'' # body"
| "delete_tags_from (Some body) (c # cs) =
     (if c \<noteq> CHR ''>'' then delete_tags_from (Some (body @ [c])) cs
      else if body = [] then CHR ''<'' # CHR ''>'' # delete_tags_from None cs
      else delete_tags_from None cs)"

definition delete_tags :: "string \<Rightarrow> string" where
  "delete_tags s = delete_tags_from None s"

text \<open>
  Surrounding whitespace removed: the leading whitespace is skipped, and of the rest
  everything after the last character that is not whitespace is dropped.
\<close>

fun drop_trailing_space :: "string \<Rightarrow> string" where
  "drop_trailing_space [] = []"
| "drop_trailing_space (c # cs) =
     (let r = drop_trailing_space cs in if r = [] \<and> isspace c then [] else c # r)"

fun trim :: "string \<Rightarrow> string" where
  "trim [] = []"
| "trim (c # cs) = (if isspace c then trim cs else drop_trailing_space (c # cs))"

definition spec_clean :: "string \<Rightarrow> string" where
  "spec_clean s = trim (delete_tags s)"

text \<open>
  The specification of the Normalizer, in its own words: of the cues paired with their
  zero-based positions, those at an even position whose cleaned text is not empty are kept,
  and each contributes its cleaned text.
\<close>

definition kept_texts :: "caption list \<Rightarrow> string list" where
  "kept_texts captions =
     map (\<lambda>(idx, caption). spec_clean (caption_text caption))
       (filter (\<lambda>(idx, caption). even idx \<and> spec_clean (caption_text caption) \<noteq> [])
          (enumerate 0 captions))"

text \<open>
  The lines of a text: the text cut at each newline, as \<open>s.split('\n')\<close> cuts it; the empty
  text has no line.
\<close>

fun split_newline :: "string \<Rightarrow> string list" where
  "split_newline [] = [[]]"
| "split_newline (c # cs) =
     (if c = CHR 0x0A then [] # split_newline cs
      else (case split_newline cs of
              [] \<Rightarrow> [[c]]
            | l # ls \<Rightarrow> (c # l) # ls))"

definition lines_of :: "string \<Rightarrow> string list" where
  "lines_of s = (if s = [] then [] else split_newline s)"

text \<open>A cue with a given text.\<close>

definition cue :: "string \<Rightarrow> caption" where
  "cue t = \<lparr>start_time = ''00:00:00.000'', end_time = ''00:00:02.000'', caption_text = t\<rparr>"

text \<open>
  The metadata of the scenario of the specification: the title \<open>My Video!\<close>, with captions
  for \<open>en\<close> in the dictionaries given.
\<close>

definition example_info :: "(string \<rightharpoonup> string list) \<Rightarrow> (string \<rightharpoonup> string list) \<Rightarrow> info" where
  "example_info subs autos =
     \<lparr>title = Some ''My Video!'', subtitles = subs, automatic_captions = autos\<rparr>"

text \<open>
  An environment in which the metadata lookup answers with user-provided captions for \<open>en\<close>,
  the download writes the files \<open>written\<close>, every caption file parses to \<open>captions\<close>, and the
  operating system raises nothing.
\<close>

definition example_env :: "(string \<rightharpoonup> string) \<Rightarrow> caption list \<Rightarrow> env" where
  "example_env written captions =
     \<lparr>ydl_extract_info = (\<lambda>url. Inr (example_info [''en'' \<mapsto> [''vtt'']] Map.empty)),
      ydl_download = (\<lambda>opts url. Inr written),
      webvtt_parse = (\<lambda>content. Inr captions),
      makedirs_error = (\<lambda>p. None),
      remove_error = (\<lambda>p. None),
      open_error = (\<lambda>p. None),
      write_error = (\<lambda>p. None)\<rparr>"

text \<open>A world with no file, no directory and no call made.\<close>

definition empty_world :: world where
  "empty_world = \<lparr>files = Map.empty, dirs = {}, calls = []\<rparr>"

text \<open>A reader of caption files that parses every file to the given cues.\<close>

definition read_as :: "caption list \<Rightarrow> string \<Rightarrow> exn + caption list" where
  "read_as captions p = Inr captions"

text \<open>A reader of caption files that raises the given exception on every file.\<close>

definition read_raises :: "exn \<Rightarrow> string \<Rightarrow> exn + caption list" where
  "read_raises err p = Inl err"

section \<open>Lemmas on the removal of markup\<close>

lemma match_tag_Some_iff:
  "match_tag s = Some rest \<longleftrightarrow>
     (\<exists>body. s = CHR ''<'' # body @ CHR ''>'' # rest \<and> body \<noteq> [] \<and> CHR ''>'' \<notin> set body)"
proof
  assume m: "match_tag s = Some rest"
  then obtain c cs where s: "s = c # cs" by (cases s) auto
  let ?P = "\<lambda>d. d \<noteq> CHR ''>''"
  from m s have c: "c = CHR ''<''" and t: "takeWhile ?P cs \<noteq> []"
    by (auto split: if_splits)
  from m s c t obtain g where d: "dropWhile ?P cs = g # rest"
    by (auto split: list.splits)
  from d have "dropWhile ?P cs \<noteq> []" by simp
  then have "\<not> ?P (hd (dropWhile ?P cs))" by (rule hd_dropWhile)
  with d have g: "g = CHR ''>''" by simp
  have "cs = takeWhile ?P cs @ dropWhile ?P cs" by simp
  with d g have "cs = takeWhile ?P cs @ CHR ''>'' # rest" by simp
  moreover have "CHR ''>'' \<notin> set (takeWhile ?P cs)"
    by (auto dest: set_takeWhileD)
  ultimately show "\<exists>body. s = CHR ''<'' # body @ CHR ''>'' # rest \<and> body \<noteq> [] \<and> CHR ''>'' \<notin> set body"
    using s c t by blast
next
  assume "\<exists>body. s = CHR ''<'' # body @ CHR ''>'' # rest \<and> body \<noteq> [] \<and> CHR ''>'' \<notin> set body"
  then obtain body where s: "s = CHR ''<'' # body @ CHR ''>'' # rest"
    and b: "body \<noteq> []" and n: "CHR ''>'' \<notin> set body" by blast
  let ?P = "\<lambda>d. d \<noteq> CHR ''>''"
  from n have all: "\<forall>x\<in>set body. ?P x" by auto
  have t: "takeWhile ?P (body @ CHR ''>'' # rest) = body"
    using all by (simp add: takeWhile_tail)
  have d: "dropWhile ?P (body @ CHR ''>'' # rest) = CHR ''>'' # rest"
    using all by (simp add: dropWhile_append2)
  show "match_tag s = Some rest"
    using s b t d by simp
qed












section \<open>The cleaning of the specification is that of the code\<close>

lemma re_sub_tags_no_close: "CHR ''>'' \<notin> set s \<Longrightarrow> re_sub_tags s = s"
proof (induction s)
  case Nil
  show ?case by simp
next
  case (Cons c cs)
  then have "dropWhile (\<lambda>d. d \<noteq> CHR ''>'') cs = []" by auto
  then have "match_tag (c # cs) = None" by (simp del: dropWhile_eq_Nil_conv)
  with Cons show ?case by (simp del: match_tag.simps)
qed

lemma re_sub_tags_keep: "c \<noteq> CHR ''<'' \<Longrightarrow> re_sub_tags (c # cs) = c # re_sub_tags cs"
  by simp

lemma re_sub_tags_empty_tag: "re_sub_tags (CHR ''<'' # CHR ''>'' # cs) = CHR ''<'' # CHR ''>'' # re_sub_tags cs"
  by simp

lemma re_sub_tags_tag:
  "body \<noteq> [] \<Longrightarrow> CHR ''>'' \<notin> set body \<Longrightarrow>
     re_sub_tags (CHR ''<'' # body @ CHR ''>'' # rest) = re_sub_tags rest"
proof -
  assume b: "body \<noteq> []" "CHR ''>'' \<notin> set body"
  then have "match_tag (CHR ''<'' # body @ CHR ''>'' # rest) = Some rest"
    unfolding match_tag_Some_iff by blast
  then show ?thesis by (simp del: match_tag.simps)
qed

lemma delete_tags_from_eq:
  "delete_tags_from None s = re_sub_tags s"
  "CHR ''>'' \<notin> set body \<Longrightarrow> delete_tags_from (Some body) s = re_sub_tags (CHR ''<'' # body @ s)"
proof (induction s arbitrary: body)
  case Nil
  { case 1 show ?case by simp }
  { case 2
    then have "CHR ''>'' \<notin> set (CHR ''<'' # body @ [])" by simp
    then have "re_sub_tags (CHR ''<'' # body @ []) = CHR ''<'' # body @ []"
      by (rule re_sub_tags_no_close)
    then show ?case by simp }
next
  case (Cons c cs)
  { case 1
    show ?case
    proof (cases "c = CHR ''<''")
      case True
      have "delete_tags_from (Some []) cs = re_sub_tags (CHR ''<'' # [] @ cs)"
        by (rule Cons.IH(2)) simp
      with True show ?thesis by simp
    next
      case False
      with Cons.IH(1) show ?thesis by simp
    qed }
  { case 2
    show ?case
    proof (cases "c = CHR ''>''")
      case False
      with 2 have "CHR ''>'' \<notin> set (body @ [c])" by simp
      then have "delete_tags_from (Some (body @ [c])) cs = re_sub_tags (CHR ''<'' # (body @ [c]) @ cs)"
        by (rule Cons.IH(2))
      with False show ?thesis by simp
    next
      case True
      show ?thesis
      proof (cases "body = []")
        case True
        with \<open>c = CHR ''>''\<close> Cons.IH(1) show ?thesis by simp
      next
        case False
        with 2 have "re_sub_tags (CHR ''<'' # body @ CHR ''>'' # cs) = re_sub_tags cs"
          by (intro re_sub_tags_tag)
        with False \<open>c = CHR ''>''\<close> Cons.IH(1) show ?thesis by simp
      qed
    qed }
qed

lemma delete_tags_eq: "delete_tags s = re_sub_tags s"
  by (simp add: delete_tags_def delete_tags_from_eq)

lemma drop_trailing_space_eq: "drop_trailing_space s = rev (dropWhile isspace (rev s))"
proof (induction s)
  case Nil
  show ?case by simp
next
  case (Cons c cs)
  show ?case
  proof (cases "\<forall>x \<in> set cs. isspace x")
    case True
    then have "dropWhile isspace (rev cs) = []" by simp
    with Cons True show ?thesis by (simp add: dropWhile_append Let_def)
  next
    case False
    then have "dropWhile isspace (rev cs) \<noteq> []" by simp
    with Cons False show ?thesis by (auto simp: dropWhile_append Let_def)
  qed
qed

lemma trim_eq: "trim s = strip s"
proof (induction s)
  case Nil
  show ?case by (simp add: strip_def)
next
  case (Cons c cs)
  show ?case
  proof (cases "isspace c")
    case True
    with Cons show ?thesis by (simp add: strip_def)
  next
    case False
    have "trim (c # cs) = drop_trailing_space (c # cs)" using False by simp
    also have "\<dots> = rev (dropWhile isspace (rev (c # cs)))" by (rule drop_trailing_space_eq)
    also have "\<dots> = strip (c # cs)" using False by (simp add: strip_def)
    finally show ?thesis .
  qed
qed

lemma spec_clean_eq: "spec_clean s = clean_text s"
  by (simp add: spec_clean_def clean_text_def trim_eq delete_tags_eq)

section \<open>Lemmas on the loop of the Normalizer\<close>

lemma collect_transcript_enumerate:
  "collect_transcript idx captions transcript =
     transcript @
     map (\<lambda>(idx, caption). clean_text (caption_text caption))
       (filter (\<lambda>(idx, caption). even idx \<and> clean_text (caption_text caption) \<noteq> [])
          (enumerate idx captions))"
proof (induction captions arbitrary: idx transcript)
  case Nil
  show ?case by simp
next
  case (Cons c cs)
  show ?case by (simp add: Cons.IH Let_def even_iff_mod_2_eq_zero)
qed

lemma kept_texts_clean:
  "kept_texts captions =
     map (\<lambda>(idx, caption). clean_text (caption_text caption))
       (filter (\<lambda>(idx, caption). even idx \<and> clean_text (caption_text caption) \<noteq> [])
          (enumerate 0 captions))"
  by (simp add: kept_texts_def spec_clean_eq)

lemma collect_transcript_kept: "collect_transcript 0 captions [] = kept_texts captions"
  by (simp add: collect_transcript_enumerate kept_texts_clean)

lemma map_snd_enumerate: "map (\<lambda>(idx, x). f x) (enumerate n xs) = map f xs"
  by (induction xs arbitrary: n) simp_all

lemma kept_texts_subseq:
  "subseq (kept_texts captions) (map (\<lambda>caption. clean_text (caption_text caption)) captions)"
proof -
  let ?f = "\<lambda>(idx :: nat, caption). clean_text (caption_text caption)"
  have "map (\<lambda>caption. clean_text (caption_text caption)) captions = map ?f (enumerate 0 captions)"
    by (simp add: map_snd_enumerate)
  moreover have "subseq (kept_texts captions) (map ?f (enumerate 0 captions))"
    unfolding kept_texts_clean by (intro subseq_map subseq_filter_left)
  ultimately show ?thesis by simp
qed

lemma kept_texts_Nil_iff:
  "kept_texts captions = [] \<longleftrightarrow>
     (\<forall>idx < length captions. odd idx \<or> clean_text (caption_text (captions ! idx)) = [])"
  by (auto simp: kept_texts_clean filter_empty_conv in_set_enumerate_eq)

section \<open>Lemmas on the lines of a text\<close>

lemma split_newline_not_Nil: "split_newline s \<noteq> []"
  by (induction s) (auto split: list.splits)

lemma split_newline_append:
  "split_newline (x @ ''\<newline>'' @ y) = split_newline x @ split_newline y"
proof (induction x)
  case Nil
  show ?case by simp
next
  case (Cons c x)
  obtain l ls where s: "split_newline x = l # ls"
    using split_newline_not_Nil [of x] by (cases "split_newline x") auto
  with Cons show ?case by simp
qed

lemma split_newline_single: "CHR 0x0A \<notin> set s \<Longrightarrow> split_newline s = [s]"
  by (induction s) auto

lemma join_not_Nil: "xs \<noteq> [] \<Longrightarrow> \<forall>x \<in> set xs. x \<noteq> [] \<Longrightarrow> join sep xs \<noteq> []"
  by (induction sep xs rule: join.induct) auto

lemma lines_of_join:
  "\<forall>x \<in> set xs. x \<noteq> [] \<Longrightarrow>
     lines_of (join ''\<newline>'' xs) = concat (map lines_of xs)"
proof (induction "''\<newline>''" xs rule: join.induct)
  case 1
  show ?case by (simp add: lines_of_def)
next
  case (2 x)
  show ?case by simp
next
  case (3 x y ys)
  then have ne: "x \<noteq> []" "join ''\<newline>'' (y # ys) \<noteq> []"
    using join_not_Nil [of "y # ys" "''\<newline>''"] by auto
  from 3 have ih: "lines_of (join ''\<newline>'' (y # ys)) = concat (map lines_of (y # ys))" by simp
  have "lines_of (join ''\<newline>'' (x # y # ys)) =
          split_newline (x @ ''\<newline>'' @ join ''\<newline>'' (y # ys))"
    using ne by (simp add: lines_of_def)
  also have "\<dots> = split_newline x @ split_newline (join ''\<newline>'' (y # ys))"
    by (rule split_newline_append)
  also have "\<dots> = lines_of x @ lines_of (join ''\<newline>'' (y # ys))"
    using ne by (simp add: lines_of_def)
  finally show ?case using ih by simp
qed

lemma lines_of_single: "x \<noteq> [] \<Longrightarrow> CHR 0x0A \<notin> set x \<Longrightarrow> lines_of x = [x]"
  by (simp add: lines_of_def split_newline_single)

lemma concat_lines_of_single:
  "\<forall>x \<in> set xs. x \<noteq> [] \<and> CHR 0x0A \<notin> set x \<Longrightarrow> concat (map lines_of xs) = xs"
  by (induction xs) (simp_all add: lines_of_single)

lemma collect_transcript_nonempty: "x \<in> set (collect_transcript 0 captions []) \<Longrightarrow> x \<noteq> []"
  by (auto simp: collect_transcript_kept kept_texts_clean)

lemma collect_transcript_cleaned:
  "x \<in> set (collect_transcript 0 captions []) \<Longrightarrow>
     \<exists>caption \<in> set captions. x = clean_text (caption_text caption)"
proof -
  assume "x \<in> set (collect_transcript 0 captions [])"
  then obtain j where j: "j < length captions" "x = clean_text (caption_text (captions ! j))"
    by (auto simp: collect_transcript_kept kept_texts_clean in_set_enumerate_eq)
  then have "captions ! j \<in> set captions" by simp
  with j show ?thesis by blast
qed

section \<open>The Normalizer\<close>

lemmas spec_clean_defs = spec_clean_def delete_tags_def isspace_def

lemmas clean_defs = clean_text_def strip_def isspace_def

lemmas url_defs = is_valid_youtube_url_def youtube_regex_def re_seq_def re_opt_def re_lit_def
  re_alt_def re_repeat_def re_end_def word_char_def in_range_def isspace_def

lemmas title_defs = video_title_of_def max_length_def title_char_def in_range_def
  replace_space_dash_def strip_def isspace_def

lemmas pipeline_defs = fetch_transcript_def process_url_def example_env_def example_info_def
  empty_world_def select_subtitles_def path_exists_def makedirs_def os_remove_def
  webvtt_read_def subtitle_path_of_def path_join_def SUBTITLES_DIR_def download_opts_def
  convert_subtitles_to_text_def cue_def

text \<open>
  C2: when the caption file parses, the output of the Normalizer is the newline-join, in the
  original order, of the cleaned texts of exactly those cues whose zero-based position is
  even and whose cleaned text is not empty, where the cleaned text is the text with its
  markup removed and its surrounding whitespace trimmed, as \<open>spec_clean\<close> states it apart from
  the code. For cues with the texts Hello, Hello, World, World the output is Hello, newline,
  World; for cues with markup and blanks the markup and the blank cue are gone.
\<close>

theorem normalizer_keeps_even_nonempty:
  "(rd subtitle_path = Inr captions \<longrightarrow>
      convert_subtitles_to_text rd subtitle_path = join ''\<newline>'' (kept_texts captions)) \<and>
   (rd subtitle_path = Inr captions \<and>
    map caption_text captions = [''Hello'', ''Hello'', ''World'', ''World''] \<longrightarrow>
      convert_subtitles_to_text rd subtitle_path = ''Hello\<newline>World'') \<and>
   (rd subtitle_path = Inr captions \<and>
    map caption_text captions = ['' <b>Hi</b> there '', ''dropped'', '' '', ''dropped'', ''<i>you</i>''] \<longrightarrow>
      convert_subtitles_to_text rd subtitle_path = ''Hi there\<newline>you'')"
proof (intro conjI impI)
  assume "rd subtitle_path = Inr captions"
  then show "convert_subtitles_to_text rd subtitle_path = join ''\<newline>'' (kept_texts captions)"
    by (simp add: convert_subtitles_to_text_def collect_transcript_kept)
next
  assume a: "rd subtitle_path = Inr captions \<and>
    map caption_text captions = [''Hello'', ''Hello'', ''World'', ''World'']"
  then obtain c0 c1 c2 c3 where cs: "captions = [c0, c1, c2, c3]"
    and t: "caption_text c0 = ''Hello''" "caption_text c2 = ''World''"
    by (auto simp: map_eq_Cons_conv)
  have "clean_text ''Hello'' = ''Hello''" "clean_text ''World'' = ''World''"
    by (simp_all add: clean_text_def strip_def isspace_def)
  with a cs t show "convert_subtitles_to_text rd subtitle_path = ''Hello\<newline>World''"
    by (simp add: convert_subtitles_to_text_def)
next
  assume a: "rd subtitle_path = Inr captions \<and>
    map caption_text captions = ['' <b>Hi</b> there '', ''dropped'', '' '', ''dropped'', ''<i>you</i>'']"
  then obtain c0 c1 c2 c3 c4 where cs: "captions = [c0, c1, c2, c3, c4]"
    and t: "caption_text c0 = '' <b>Hi</b> there ''" "caption_text c2 = '' ''"
      "caption_text c4 = ''<i>you</i>''"
    by (auto simp: map_eq_Cons_conv)
  have "clean_text '' <b>Hi</b> there '' = ''Hi there''" "clean_text '' '' = []"
    "clean_text ''<i>you</i>'' = ''you''"
    by (simp_all add: clean_text_def strip_def isspace_def)
  with a cs t show "convert_subtitles_to_text rd subtitle_path = ''Hi there\<newline>you''"
    by (simp add: convert_subtitles_to_text_def)
qed

theorem normalizer_hello_world_witness:
  "read_as [cue ''Hello'', cue ''Hello'', cue ''World'', cue ''World''] ''My-Video.en.vtt'' =
     Inr [cue ''Hello'', cue ''Hello'', cue ''World'', cue ''World''] \<and>
   map caption_text [cue ''Hello'', cue ''Hello'', cue ''World'', cue ''World''] =
     [''Hello'', ''Hello'', ''World'', ''World''] \<and>
   convert_subtitles_to_text (read_as [cue ''Hello'', cue ''Hello'', cue ''World'', cue ''World''])
     ''My-Video.en.vtt'' = ''Hello\<newline>World'' \<and>
   read_as [cue '' <b>Hi</b> there '', cue ''dropped'', cue '' '', cue ''dropped'', cue ''<i>you</i>'']
     ''My-Video.en.vtt'' =
     Inr [cue '' <b>Hi</b> there '', cue ''dropped'', cue '' '', cue ''dropped'', cue ''<i>you</i>''] \<and>
   kept_texts [cue '' <b>Hi</b> there '', cue ''dropped'', cue '' '', cue ''dropped'', cue ''<i>you</i>''] =
     [''Hi there'', ''you''] \<and>
   convert_subtitles_to_text
     (read_as [cue '' <b>Hi</b> there '', cue ''dropped'', cue '' '', cue ''dropped'', cue ''<i>you</i>''])
     ''My-Video.en.vtt'' = ''Hi there\<newline>you''"
proof -
  let ?cues = "[cue ''Hello'', cue ''Hello'', cue ''World'', cue ''World'']"
  let ?marked = "[cue '' <b>Hi</b> there '', cue ''dropped'', cue '' '', cue ''dropped'', cue ''<i>you</i>'']"
  have h: "read_as ?cues ''My-Video.en.vtt'' = Inr ?cues \<and>
           map caption_text ?cues = [''Hello'', ''Hello'', ''World'', ''World'']"
    by (simp add: read_as_def cue_def)
  from normalizer_keeps_even_nonempty [of "read_as ?cues" "''My-Video.en.vtt''" ?cues] h
  have r1: "convert_subtitles_to_text (read_as ?cues) ''My-Video.en.vtt'' = ''Hello\<newline>World''"
    by blast
  have h2: "read_as ?marked ''My-Video.en.vtt'' = Inr ?marked" by (simp add: read_as_def)
  have k: "kept_texts ?marked = [''Hi there'', ''you'']"
    by (simp add: kept_texts_def enumerate_eq_zip cue_def spec_clean_defs upt_rec)
  from normalizer_keeps_even_nonempty [of "read_as ?marked" "''My-Video.en.vtt''" ?marked] h2
  have "convert_subtitles_to_text (read_as ?marked) ''My-Video.en.vtt'' =
          join ''\<newline>'' (kept_texts ?marked)" by blast
  then have r2: "convert_subtitles_to_text (read_as ?marked) ''My-Video.en.vtt'' =
          ''Hi there\<newline>you''" unfolding k by simp
  from h r1 h2 k r2 show ?thesis by blast
qed

text \<open>
  C8: the Normalizer hands its caller a text in every case and raises nothing (in the model,
  its result is a \<open>string\<close>, with no branch for an exception). It returns the empty string
  when \<open>webvtt.read\<close> raises on a malformed file, when the track has no cue, and when every
  cue is filtered out, that is, stands at an odd position or has an empty cleaned text.
\<close>

theorem normalizer_empty_not_error:
  "(rd subtitle_path = Inl err \<longrightarrow> convert_subtitles_to_text rd subtitle_path = []) \<and>
   (rd subtitle_path = Inr [] \<longrightarrow> convert_subtitles_to_text rd subtitle_path = []) \<and>
   (rd subtitle_path = Inr captions \<and>
    (\<forall>idx < length captions. odd idx \<or> clean_text (caption_text (captions ! idx)) = []) \<longrightarrow>
      convert_subtitles_to_text rd subtitle_path = [])"
proof (intro conjI impI)
  assume "rd subtitle_path = Inl err"
  then show "convert_subtitles_to_text rd subtitle_path = []"
    by (simp add: convert_subtitles_to_text_def)
next
  assume "rd subtitle_path = Inr []"
  then show "convert_subtitles_to_text rd subtitle_path = []"
    by (simp add: convert_subtitles_to_text_def)
next
  assume a: "rd subtitle_path = Inr captions \<and>
    (\<forall>idx < length captions. odd idx \<or> clean_text (caption_text (captions ! idx)) = [])"
  then have "kept_texts captions = []" by (simp add: kept_texts_Nil_iff)
  with a show "convert_subtitles_to_text rd subtitle_path = []"
    by (simp add: convert_subtitles_to_text_def collect_transcript_kept)
qed

theorem normalizer_empty_not_error_witness:
  "read_raises (OtherException ''MalformedFileError'') ''My-Video.en.vtt'' =
     Inl (OtherException ''MalformedFileError'') \<and>
   convert_subtitles_to_text (read_raises (OtherException ''MalformedFileError''))
     ''My-Video.en.vtt'' = [] \<and>
   read_as [] ''My-Video.en.vtt'' = Inr [] \<and>
   convert_subtitles_to_text (read_as []) ''My-Video.en.vtt'' = [] \<and>
   read_as [cue ''<i> </i>'', cue ''Hello''] ''My-Video.en.vtt'' =
     Inr [cue ''<i> </i>'', cue ''Hello''] \<and>
   clean_text (caption_text ([cue ''<i> </i>'', cue ''Hello''] ! 0)) = [] \<and>
   convert_subtitles_to_text (read_as [cue ''<i> </i>'', cue ''Hello'']) ''My-Video.en.vtt'' = []"
proof -
  let ?err = "OtherException ''MalformedFileError''"
  let ?cues = "[cue ''<i> </i>'', cue ''Hello'']"
  have h1: "read_raises ?err ''My-Video.en.vtt'' = Inl ?err" by (simp add: read_raises_def)
  have h2: "read_as [] ''My-Video.en.vtt'' = Inr []" by (simp add: read_as_def)
  have h3: "read_as ?cues ''My-Video.en.vtt'' = Inr ?cues" by (simp add: read_as_def)
  have c0: "clean_text (caption_text (?cues ! 0)) = []"
    by (simp add: cue_def clean_defs)
  have h4: "\<forall>idx < length ?cues. odd idx \<or> clean_text (caption_text (?cues ! idx)) = []"
  proof (intro allI impI)
    fix idx assume "idx < length ?cues"
    then have "idx = 0 \<or> idx = 1" by auto
    then show "odd idx \<or> clean_text (caption_text (?cues ! idx)) = []"
      using c0 by auto
  qed
  from normalizer_empty_not_error [of "read_raises ?err" "''My-Video.en.vtt''" ?err] h1
  have r1: "convert_subtitles_to_text (read_raises ?err) ''My-Video.en.vtt'' = []" by blast
  from normalizer_empty_not_error [of "read_as []" "''My-Video.en.vtt''"] h2
  have r2: "convert_subtitles_to_text (read_as []) ''My-Video.en.vtt'' = []" by blast
  from normalizer_empty_not_error [of "read_as ?cues" "''My-Video.en.vtt''" _ ?cues] h3 h4
  have r3: "convert_subtitles_to_text (read_as ?cues) ''My-Video.en.vtt'' = []" by blast
  from h1 h2 h3 c0 r1 r2 r3 show ?thesis by blast
qed

text \<open>
  C9, as amended: the Normalizer never reorders cues. The texts that it joins with newlines
  are a subsequence, in the original order, of the cleaned texts of the cues of the file, and
  the lines of the output are the lines of these texts, in that order: a cleaned text of
  several lines contributes several lines. When no cleaned cue text holds a newline, the
  lines of the output are themselves an in-order subsequence of the cleaned cue texts.
\<close>

theorem normalizer_preserves_order:
  "rd subtitle_path = Inr captions \<Longrightarrow>
     subseq (collect_transcript 0 captions [])
       (map (\<lambda>caption. clean_text (caption_text caption)) captions) \<and>
     convert_subtitles_to_text rd subtitle_path =
       join ''\<newline>'' (collect_transcript 0 captions []) \<and>
     lines_of (convert_subtitles_to_text rd subtitle_path) =
       concat (map lines_of (collect_transcript 0 captions [])) \<and>
     ((\<forall>caption \<in> set captions. CHR 0x0A \<notin> set (clean_text (caption_text caption))) \<longrightarrow>
        lines_of (convert_subtitles_to_text rd subtitle_path) = collect_transcript 0 captions [] \<and>
        subseq (lines_of (convert_subtitles_to_text rd subtitle_path))
          (map (\<lambda>caption. clean_text (caption_text caption)) captions))"
proof -
  assume r: "rd subtitle_path = Inr captions"
  let ?t = "collect_transcript 0 captions []"
  let ?c = "map (\<lambda>caption. clean_text (caption_text caption)) captions"
  have s: "subseq ?t ?c"
    using kept_texts_subseq [of captions] by (simp add: collect_transcript_kept)
  from r have o: "convert_subtitles_to_text rd subtitle_path = join ''\<newline>'' ?t"
    by (simp add: convert_subtitles_to_text_def)
  have ne: "\<forall>x \<in> set ?t. x \<noteq> []" using collect_transcript_nonempty by blast
  then have l: "lines_of (convert_subtitles_to_text rd subtitle_path) = concat (map lines_of ?t)"
    unfolding o by (rule lines_of_join)
  have n: "(\<forall>caption \<in> set captions. CHR 0x0A \<notin> set (clean_text (caption_text caption))) \<longrightarrow>
        lines_of (convert_subtitles_to_text rd subtitle_path) = ?t \<and>
        subseq (lines_of (convert_subtitles_to_text rd subtitle_path)) ?c"
  proof
    assume a: "\<forall>caption \<in> set captions. CHR 0x0A \<notin> set (clean_text (caption_text caption))"
    have "\<forall>x \<in> set ?t. x \<noteq> [] \<and> CHR 0x0A \<notin> set x"
    proof
      fix x assume x: "x \<in> set ?t"
      then obtain caption where "caption \<in> set captions" "x = clean_text (caption_text caption)"
        using collect_transcript_cleaned by blast
      with a have "CHR 0x0A \<notin> set x" by blast
      with x ne show "x \<noteq> [] \<and> CHR 0x0A \<notin> set x" by blast
    qed
    then have "concat (map lines_of ?t) = ?t" by (rule concat_lines_of_single)
    with l have e: "lines_of (convert_subtitles_to_text rd subtitle_path) = ?t" by simp
    with s show "lines_of (convert_subtitles_to_text rd subtitle_path) = ?t \<and>
        subseq (lines_of (convert_subtitles_to_text rd subtitle_path)) ?c" by simp
  qed
  from s o l n show ?thesis by blast
qed

theorem normalizer_preserves_order_witness:
  "read_as [cue ''Hello'', cue ''Hello'', cue ''World'', cue ''World''] ''My-Video.en.vtt'' =
     Inr [cue ''Hello'', cue ''Hello'', cue ''World'', cue ''World''] \<and>
   collect_transcript 0 [cue ''Hello'', cue ''Hello'', cue ''World'', cue ''World''] [] =
     [''Hello'', ''World''] \<and>
   subseq [''Hello'', ''World''] [''Hello'', ''Hello'', ''World'', ''World''] \<and>
   convert_subtitles_to_text (read_as [cue ''Hello'', cue ''Hello'', cue ''World'', cue ''World''])
     ''My-Video.en.vtt'' = join ''\<newline>'' [''Hello'', ''World''] \<and>
   CHR 0x0A \<notin> set ''Hello'' \<and> CHR 0x0A \<notin> set ''World'' \<and>
   lines_of (convert_subtitles_to_text
               (read_as [cue ''Hello'', cue ''Hello'', cue ''World'', cue ''World''])
               ''My-Video.en.vtt'') = [''Hello'', ''World'']"
proof -
  let ?cues = "[cue ''Hello'', cue ''Hello'', cue ''World'', cue ''World'']"
  have h: "read_as ?cues ''My-Video.en.vtt'' = Inr ?cues" by (simp add: read_as_def)
  have c: "clean_text ''Hello'' = ''Hello''" "clean_text ''World'' = ''World''"
    by (simp_all add: clean_defs)
  have t: "collect_transcript 0 ?cues [] = [''Hello'', ''World'']"
    by (simp add: cue_def c)
  have m: "map (\<lambda>caption. clean_text (caption_text caption)) ?cues =
             [''Hello'', ''Hello'', ''World'', ''World'']"
    by (simp add: cue_def c)
  have n: "CHR 0x0A \<notin> set ''Hello'' \<and> CHR 0x0A \<notin> set ''World''" by simp
  have a: "\<forall>caption \<in> set ?cues. CHR 0x0A \<notin> set (clean_text (caption_text caption))"
    by (simp add: cue_def c)
  note r = normalizer_preserves_order [of "read_as ?cues" "''My-Video.en.vtt''" ?cues]
  from r h have 1: "subseq (collect_transcript 0 ?cues [])
          (map (\<lambda>caption. clean_text (caption_text caption)) ?cues)" by blast
  from r h have 2: "convert_subtitles_to_text (read_as ?cues) ''My-Video.en.vtt'' =
          join ''\<newline>'' (collect_transcript 0 ?cues [])" by blast
  from r h a have 3: "lines_of (convert_subtitles_to_text (read_as ?cues) ''My-Video.en.vtt'') =
          collect_transcript 0 ?cues []" by blast
  from h t 1 2 n 3 show ?thesis unfolding t m by blast
qed

text \<open>
  C9, as stated, fails for a cue of two lines: the cues \<open>one/two\<close> (two lines), \<open>x\<close> and
  \<open>three\<close> give an output with the lines \<open>one\<close>, \<open>two\<close>, \<open>three\<close>, and \<open>one\<close> is not the
  cleaned text of any cue, so these lines are not a subsequence of the cleaned cue texts.
\<close>

theorem output_lines_of_multiline_cue:
  "lines_of (convert_subtitles_to_text
               (read_as [cue ''one\<newline>two'', cue ''x'', cue ''three'']) ''My-Video.en.vtt'') =
     [''one'', ''two'', ''three''] \<and>
   map (clean_text \<circ> caption_text) [cue ''one\<newline>two'', cue ''x'', cue ''three''] =
     [''one\<newline>two'', ''x'', ''three''] \<and>
   \<not> subseq
        (lines_of (convert_subtitles_to_text
                     (read_as [cue ''one\<newline>two'', cue ''x'', cue ''three'']) ''My-Video.en.vtt''))
        (map (clean_text \<circ> caption_text) [cue ''one\<newline>two'', cue ''x'', cue ''three''])"
proof -
  let ?cues = "[cue ''one\<newline>two'', cue ''x'', cue ''three'']"
  have c: "clean_text ''one\<newline>two'' = ''one\<newline>two''" "clean_text ''x'' = ''x''"
    "clean_text ''three'' = ''three''"
    by (simp_all add: clean_text_def strip_def isspace_def)
  have o: "convert_subtitles_to_text (read_as ?cues) ''My-Video.en.vtt'' =
      ''one\<newline>two\<newline>three''"
    by (simp add: convert_subtitles_to_text_def read_as_def cue_def c)
  have l: "lines_of ''one\<newline>two\<newline>three'' = [''one'', ''two'', ''three'']"
    by (simp add: lines_of_def)
  have m: "map (clean_text \<circ> caption_text) ?cues = [''one\<newline>two'', ''x'', ''three'']"
    by (simp add: cue_def c)
  have n: "\<not> subseq [''one'', ''two'', ''three''] [''one\<newline>two'', ''x'', ''three'']"
    by simp
  show ?thesis unfolding o l m using n by simp
qed




section \<open>The URL validator\<close>

lemma in_re_lit: "r \<in> set (re_lit p s) \<longleftrightarrow> s = p @ r"
proof
  assume "r \<in> set (re_lit p s)"
  then have "take (length p) s = p" "r = drop (length p) s"
    by (auto simp: re_lit_def split: if_splits)
  then show "s = p @ r" by (metis append_take_drop_id)
next
  assume "s = p @ r"
  then show "r \<in> set (re_lit p s)" by (simp add: re_lit_def)
qed

lemma in_re_opt: "r \<in> set (re_opt m s) \<longleftrightarrow> r \<in> set (m s) \<or> r = s"
  by (auto simp: re_opt_def)

lemma in_re_alt: "r \<in> set (re_alt m1 m2 s) \<longleftrightarrow> r \<in> set (m1 s) \<or> r \<in> set (m2 s)"
  by (auto simp: re_alt_def)

lemma in_re_seq: "r \<in> set (re_seq m1 m2 s) \<longleftrightarrow> (\<exists>t. t \<in> set (m1 s) \<and> r \<in> set (m2 t))"
  by (auto simp: re_seq_def)

lemma in_re_repeat:
  "r \<in> set (re_repeat n P s) \<longleftrightarrow> (\<exists>x. s = x @ r \<and> length x = n \<and> (\<forall>c \<in> set x. P c))"
proof
  assume "r \<in> set (re_repeat n P s)"
  then have "n \<le> length s" "list_all P (take n s)" "r = drop n s"
    by (auto simp: re_repeat_def split: if_splits)
  then have "s = take n s @ r \<and> length (take n s) = n \<and> (\<forall>c \<in> set (take n s). P c)"
    by (simp add: list_all_iff)
  then show "\<exists>x. s = x @ r \<and> length x = n \<and> (\<forall>c \<in> set x. P c)" by blast
next
  assume "\<exists>x. s = x @ r \<and> length x = n \<and> (\<forall>c \<in> set x. P c)"
  then show "r \<in> set (re_repeat n P s)" by (auto simp: re_repeat_def list_all_iff)
qed

lemma in_re_star: "r \<in> set (re_star P s) \<longleftrightarrow> (\<exists>x. s = x @ r \<and> (\<forall>c \<in> set x. P c))"
proof (induction s)
  case Nil
  show ?case by auto
next
  case (Cons c cs)
  show ?case
  proof (cases "P c")
    case True
    show ?thesis
    proof
      assume "r \<in> set (re_star P (c # cs))"
      with True have "r \<in> set (re_star P cs) \<or> r = c # cs" by auto
      then show "\<exists>x. c # cs = x @ r \<and> (\<forall>c \<in> set x. P c)"
      proof
        assume "r \<in> set (re_star P cs)"
        with Cons.IH obtain x where "cs = x @ r" "\<forall>c \<in> set x. P c" by blast
        with True have "c # cs = (c # x) @ r \<and> (\<forall>d \<in> set (c # x). P d)" by simp
        then show ?thesis by blast
      next
        assume "r = c # cs"
        then have "c # cs = [] @ r \<and> (\<forall>d \<in> set ([]::string). P d)" by simp
        then show ?thesis by blast
      qed
    next
      assume "\<exists>x. c # cs = x @ r \<and> (\<forall>c \<in> set x. P c)"
      then obtain x where x: "c # cs = x @ r" "\<forall>c \<in> set x. P c" by blast
      show "r \<in> set (re_star P (c # cs))"
      proof (cases x)
        case Nil
        with x have "r = c # cs" by simp
        with True show ?thesis by simp
      next
        case (Cons y ys)
        with x have "cs = ys @ r" "\<forall>c \<in> set ys. P c" by auto
        with Cons.IH have "r \<in> set (re_star P cs)" by blast
        with True show ?thesis by simp
      qed
    qed
  next
    case False
    show ?thesis
    proof
      assume "r \<in> set (re_star P (c # cs))"
      with False have "r = c # cs" by simp
      then have "c # cs = [] @ r \<and> (\<forall>d \<in> set ([]::string). P d)" by simp
      then show "\<exists>x. c # cs = x @ r \<and> (\<forall>c \<in> set x. P c)" by blast
    next
      assume "\<exists>x. c # cs = x @ r \<and> (\<forall>c \<in> set x. P c)"
      then obtain x where x: "c # cs = x @ r" "\<forall>c \<in> set x. P c" by blast
      with False have "x = []" by (cases x) auto
      with x have "r = c # cs" by simp
      with False show "r \<in> set (re_star P (c # cs))" by simp
    qed
  qed
qed

lemma in_re_end: "r \<in> set (re_end s) \<longleftrightarrow> r = s \<and> (s = [] \<or> s = ''\<newline>'')"
  by (auto simp: re_end_def)

lemmas in_re = in_re_lit in_re_opt in_re_alt in_re_seq in_re_repeat in_re_star in_re_end

lemma is_valid_youtube_url_iff:
  "is_valid_youtube_url url \<longleftrightarrow>
     (\<exists>scheme www host ident suffix nl.
        url = scheme @ www @ host @ ident @ suffix @ nl \<and>
        (scheme = [] \<or> scheme = ''http://'' \<or> scheme = ''https://'') \<and>
        (www = [] \<or> www = ''www.'') \<and>
        (host = ''youtube.com/watch?v='' \<or> host = ''youtu.be/'') \<and>
        length ident = 11 \<and> (\<forall>c \<in> set ident. word_char c \<or> c = CHR ''-'') \<and>
        (suffix = [] \<or> (\<exists>t. suffix = CHR ''&'' # t \<and> (\<forall>c \<in> set t. \<not> isspace c))) \<and>
        (nl = [] \<or> nl = ''\<newline>''))"
  (is "?L \<longleftrightarrow> ?R")
proof
  assume ?L
  then obtain r where "r \<in> set (youtube_regex url)"
    unfolding is_valid_youtube_url_def by (cases "youtube_regex url") auto
  then obtain t1 t2 t3 t4 t5 where
    1: "t1 \<in> set (re_opt (re_seq (re_lit ''http'') (re_seq (re_opt (re_lit ''s'')) (re_lit ''://''))) url)"
    and 2: "t2 \<in> set (re_opt (re_lit ''www.'') t1)"
    and 3: "t3 \<in> set (re_alt (re_lit ''youtube.com/watch?v='') (re_lit ''youtu.be/'') t2)"
    and 4: "t4 \<in> set (re_repeat 11 (\<lambda>c. word_char c \<or> c = CHR ''-'') t3)"
    and 5: "t5 \<in> set (re_opt (re_seq (re_lit ''&'') (re_star (\<lambda>c. \<not> isspace c))) t4)"
    and 6: "r \<in> set (re_end t5)"
    unfolding youtube_regex_def in_re_seq by blast
  from 1 obtain scheme where s: "url = scheme @ t1"
    "scheme = [] \<or> scheme = ''http://'' \<or> scheme = ''https://''"
    unfolding in_re by auto
  from 2 obtain www where w: "t1 = www @ t2" "www = [] \<or> www = ''www.''"
    unfolding in_re by auto
  from 3 obtain host where h: "t2 = host @ t3"
    "host = ''youtube.com/watch?v='' \<or> host = ''youtu.be/''"
    unfolding in_re by auto
  from 4 obtain ident where i: "t3 = ident @ t4" "length ident = 11"
    "\<forall>c \<in> set ident. word_char c \<or> c = CHR ''-''"
    unfolding in_re by auto
  from 5 obtain suffix where x: "t4 = suffix @ t5"
    "suffix = [] \<or> (\<exists>t. suffix = CHR ''&'' # t \<and> (\<forall>c \<in> set t. \<not> isspace c))"
    unfolding in_re by auto
  from 6 have n: "t5 = [] \<or> t5 = ''\<newline>''" unfolding in_re by auto
  from s w h i x have "url = scheme @ www @ host @ ident @ suffix @ t5" by simp
  with s w h i x n show ?R by blast
next
  assume ?R
  then obtain scheme www host ident suffix nl where
    u: "url = scheme @ www @ host @ ident @ suffix @ nl"
    and s: "scheme = [] \<or> scheme = ''http://'' \<or> scheme = ''https://''"
    and w: "www = [] \<or> www = ''www.''"
    and h: "host = ''youtube.com/watch?v='' \<or> host = ''youtu.be/''"
    and i: "length ident = 11" "\<forall>c \<in> set ident. word_char c \<or> c = CHR ''-''"
    and x: "suffix = [] \<or> (\<exists>t. suffix = CHR ''&'' # t \<and> (\<forall>c \<in> set t. \<not> isspace c))"
    and n: "nl = [] \<or> nl = ''\<newline>''"
    by blast
  from s have 1: "www @ host @ ident @ suffix @ nl \<in>
      set (re_opt (re_seq (re_lit ''http'') (re_seq (re_opt (re_lit ''s'')) (re_lit ''://''))) url)"
    unfolding in_re u by auto
  from w have 2: "host @ ident @ suffix @ nl \<in>
      set (re_opt (re_lit ''www.'') (www @ host @ ident @ suffix @ nl))"
    unfolding in_re by auto
  from h have 3: "ident @ suffix @ nl \<in>
      set (re_alt (re_lit ''youtube.com/watch?v='') (re_lit ''youtu.be/'') (host @ ident @ suffix @ nl))"
    unfolding in_re by auto
  from i have 4: "suffix @ nl \<in>
      set (re_repeat 11 (\<lambda>c. word_char c \<or> c = CHR ''-'') (ident @ suffix @ nl))"
    unfolding in_re by blast
  from x have 5: "nl \<in>
      set (re_opt (re_seq (re_lit ''&'') (re_star (\<lambda>c. \<not> isspace c))) (suffix @ nl))"
    unfolding in_re by auto
  from n have 6: "nl \<in> set (re_end nl)" unfolding in_re by auto
  from 1 2 3 4 5 6 have "nl \<in> set (youtube_regex url)"
    unfolding youtube_regex_def in_re_seq by blast
  then show ?L unfolding is_valid_youtube_url_def by auto
qed

text \<open>
  C5: for a URL that the validator rejects, \<open>process_url\<close> returns \<open>None\<close> at once and leaves
  the world as it was: no metadata lookup and no download is recorded among the calls.
\<close>

theorem invalid_url_no_network_call:
  "\<not> is_valid_youtube_url url \<Longrightarrow>
     process_url e url language w = (Inr None, w) \<and>
     calls (snd (process_url e url language w)) = calls w"
  by (simp add: process_url_def)

theorem invalid_url_no_network_call_witness:
  "\<not> is_valid_youtube_url ''not-a-url'' \<and>
   fst (process_url (example_env Map.empty []) ''not-a-url'' ''en'' empty_world) = Inr None \<and>
   calls (snd (process_url (example_env Map.empty []) ''not-a-url'' ''en'' empty_world)) = []"
proof -
  have h: "\<not> is_valid_youtube_url ''not-a-url''" by (simp add: url_defs)
  from invalid_url_no_network_call [OF h, of "example_env Map.empty []" "''en''" empty_world] h
  show ?thesis by (simp add: empty_world_def)
qed

text \<open>
  C10: the validator is meant to accept exactly the strings of the form given in
  \<open>is_valid_youtube_url_iff\<close> without the trailing newline. It also accepts such a string
  followed by one newline, since \<open>$\<close> matches before a final newline: the URL below, which
  ends in a newline, is accepted.
\<close>

theorem trailing_newline_url_accepted: "is_valid_youtube_url ''https://youtu.be/abcdefghijk\<newline>''"
  by (simp add: url_defs)

section \<open>The derived title\<close>

lemma isspace_not_title_char: "isspace c \<Longrightarrow> \<not> title_char c"
  by (auto simp: isspace_def title_char_def in_range_def)

lemma invalid_not_title_char: "c \<in> set invalid_filename_chars \<Longrightarrow> \<not> title_char c"
  by (auto simp: invalid_filename_chars_def title_char_def in_range_def)

lemma strip_id: "s \<noteq> [] \<Longrightarrow> \<not> isspace (hd s) \<Longrightarrow> \<not> isspace (last s) \<Longrightarrow> strip s = s"
proof -
  assume s: "s \<noteq> []" and h: "\<not> isspace (hd s)" and l: "\<not> isspace (last s)"
  from s h have 1: "dropWhile isspace s = s" by (cases s) auto
  from s l have "\<not> isspace (hd (rev s))" by (simp add: hd_rev)
  with s have 2: "dropWhile isspace (rev s) = rev s" by (cases "rev s") auto
  show ?thesis by (simp add: strip_def 1 2)
qed

lemma replace_space_dash_title: "list_all title_char a \<Longrightarrow> replace_space_dash a = a"
proof -
  assume "list_all title_char a"
  then have "\<forall>c \<in> set a. c \<noteq> CHR '' ''"
    by (auto simp: list_all_iff title_char_def in_range_def)
  then show ?thesis by (simp add: replace_space_dash_def map_idI)
qed

text \<open>The text \<open>m\<close> is \<open>s\<close> without its surrounding whitespace.\<close>

lemma strip_unique:
  assumes s: "s = a @ m @ b"
    and a: "\<forall>c \<in> set a. isspace c"
    and b: "\<forall>c \<in> set b. isspace c"
    and m: "m = [] \<or> (\<not> isspace (hd m) \<and> \<not> isspace (last m))"
  shows "strip s = m"
proof (cases "m = []")
  case True
  with s a b have "\<forall>c \<in> set s. isspace c" by auto
  then have d: "dropWhile isspace s = []" by simp
  show ?thesis unfolding strip_def d using True by simp
next
  case False
  with m have h: "\<not> isspace (hd m)" and l: "\<not> isspace (last m)" by simp_all
  from False h have "dropWhile isspace (m @ b) = m @ b" by (cases m) auto
  with s a have 1: "dropWhile isspace s = m @ b" by (simp add: dropWhile_append)
  from False l have "dropWhile isspace (rev m) = rev m" by (cases "rev m") (auto simp: hd_rev)
  with b have 2: "dropWhile isspace (rev b @ rev m) = rev m"
    by (simp add: dropWhile_append)
  show ?thesis by (simp add: strip_def 1 2)
qed

lemma strip_exists:
  "\<exists>a m b. s = a @ m @ b \<and> (\<forall>c \<in> set a. isspace c) \<and> (\<forall>c \<in> set b. isspace c) \<and>
     (m = [] \<or> (\<not> isspace (hd m) \<and> \<not> isspace (last m)))"
proof -
  let ?t = "dropWhile isspace s"
  let ?a = "takeWhile isspace s"
  let ?b = "rev (takeWhile isspace (rev ?t))"
  let ?m = "rev (dropWhile isspace (rev ?t))"
  have "?t = rev (takeWhile isspace (rev ?t) @ dropWhile isspace (rev ?t))"
    by (simp only: takeWhile_dropWhile_id rev_rev_ident)
  also have "\<dots> = ?m @ ?b" by (rule rev_append)
  finally have t: "?t = ?m @ ?b" .
  have "s = ?a @ ?t" by simp
  with t have 1: "s = ?a @ ?m @ ?b" by simp
  have 2: "\<forall>c \<in> set ?a. isspace c" by (auto dest: set_takeWhileD)
  have 3: "\<forall>c \<in> set ?b. isspace c" by (auto dest: set_takeWhileD)
  have 4: "?m = [] \<or> (\<not> isspace (hd ?m) \<and> \<not> isspace (last ?m))"
  proof (cases "?m = []")
    case True
    then show ?thesis by blast
  next
    case False
    then have ne: "dropWhile isspace (rev ?t) \<noteq> []" by simp
    then have "\<not> isspace (hd (dropWhile isspace (rev ?t)))" by (rule hd_dropWhile)
    with ne have l: "\<not> isspace (last ?m)" by (simp add: last_rev)
    from False t have "?t \<noteq> []" by (metis Nil_is_append_conv)
    then have "\<not> isspace (hd ?t)" by (rule hd_dropWhile)
    moreover from False t have "hd ?t = hd ?m" by (metis hd_append2)
    ultimately have "\<not> isspace (hd ?m)" by simp
    with l show ?thesis by blast
  qed
  from 1 2 3 4 show ?thesis by blast
qed

lemma filter_replace_concat:
  "filter title_char (replace_space_dash m) =
     concat (map (\<lambda>c. if c = CHR '' '' then ''-'' else if title_char c then [c] else []) m)"
proof (induction m)
  case Nil
  show ?case by (simp add: replace_space_dash_def)
next
  case (Cons c m)
  have d: "title_char CHR ''-''" by (simp add: title_char_def)
  from Cons d show ?case by (simp add: replace_space_dash_def)
qed

text \<open>
  C6, as amended: for every title, the derived title is made from the title without its
  surrounding whitespace by turning each space into one dash (whitespace is not collapsed),
  keeping each ASCII letter, digit and dash, removing every other character, and cutting the
  result after 50 characters; every title has such a text without its surrounding
  whitespace. So the derived title has at most 50 characters, none of them whitespace or
  illegal in a file name. A missing title gives \<open>video\<close>; between two words of letters, digits
  and dashes a run of \<open>k\<close> spaces gives \<open>k\<close> dashes; the title \<open>My Video!\<close> gives \<open>My-Video\<close>.
\<close>

theorem video_title_shape:
  "length (video_title_of i) \<le> 50 \<and>
   (\<forall>c \<in> set (video_title_of i).
      title_char c \<and> \<not> isspace c \<and> c \<notin> set invalid_filename_chars) \<and>
   (title i = Some (a @ m @ b) \<and> (\<forall>c \<in> set a. isspace c) \<and> (\<forall>c \<in> set b. isspace c) \<and>
    (m = [] \<or> (\<not> isspace (hd m) \<and> \<not> isspace (last m))) \<longrightarrow>
      video_title_of i =
        take 50 (concat (map (\<lambda>c. if c = CHR '' '' then ''-''
                                   else if title_char c then [c] else []) m))) \<and>
   (\<exists>a' m' b'. (case title i of None \<Rightarrow> ''video'' | Some t \<Rightarrow> t) = a' @ m' @ b' \<and>
      (\<forall>c \<in> set a'. isspace c) \<and> (\<forall>c \<in> set b'. isspace c) \<and>
      (m' = [] \<or> (\<not> isspace (hd m') \<and> \<not> isspace (last m')))) \<and>
   (title i = None \<longrightarrow> video_title_of i = ''video'') \<and>
   (title i = Some (x @ replicate k CHR '' '' @ y) \<and> x \<noteq> [] \<and> y \<noteq> [] \<and>
    list_all title_char x \<and> list_all title_char y \<longrightarrow>
      video_title_of i = take 50 (x @ replicate k CHR ''-'' @ y)) \<and>
   (title i = Some ''My Video!'' \<longrightarrow> video_title_of i = ''My-Video'')"
proof (intro conjI impI ballI)
  show "length (video_title_of i) \<le> 50"
    by (simp add: video_title_of_def max_length_def)
next
  fix c assume "c \<in> set (video_title_of i)"
  then have "title_char c" by (auto simp: video_title_of_def dest: in_set_takeD)
  then show "title_char c" "\<not> isspace c" "c \<notin> set invalid_filename_chars"
    using isspace_not_title_char invalid_not_title_char by blast+
next
  assume h: "title i = Some (a @ m @ b) \<and> (\<forall>c \<in> set a. isspace c) \<and> (\<forall>c \<in> set b. isspace c) \<and>
    (m = [] \<or> (\<not> isspace (hd m) \<and> \<not> isspace (last m)))"
  then have "strip (a @ m @ b) = m" by (intro strip_unique [of _ a m b]) auto
  with h show "video_title_of i =
        take 50 (concat (map (\<lambda>c. if c = CHR '' '' then ''-''
                                   else if title_char c then [c] else []) m))"
    by (simp add: video_title_of_def max_length_def filter_replace_concat)
next
  show "\<exists>a' m' b'. (case title i of None \<Rightarrow> ''video'' | Some t \<Rightarrow> t) = a' @ m' @ b' \<and>
      (\<forall>c \<in> set a'. isspace c) \<and> (\<forall>c \<in> set b'. isspace c) \<and>
      (m' = [] \<or> (\<not> isspace (hd m') \<and> \<not> isspace (last m')))"
    by (rule strip_exists)
next
  assume "title i = None"
  then show "video_title_of i = ''video''" by (simp add: title_defs)
next
  assume h: "title i = Some (x @ replicate k CHR '' '' @ y) \<and> x \<noteq> [] \<and> y \<noteq> [] \<and>
    list_all title_char x \<and> list_all title_char y"
  let ?s = "x @ replicate k CHR '' '' @ y"
  from h have "title_char (hd x)" "title_char (last y)" by (auto simp: list_all_iff)
  with h have "\<not> isspace (hd ?s)" "\<not> isspace (last ?s)" "?s \<noteq> []"
    using isspace_not_title_char by auto
  then have 1: "strip ?s = ?s" by (intro strip_id)
  have 2: "replace_space_dash ?s = x @ replicate k CHR ''-'' @ y"
    using h replace_space_dash_title[of x] replace_space_dash_title[of y]
    by (simp add: replace_space_dash_def)
  have "title_char CHR ''-''" by (simp add: title_char_def)
  then have 3: "filter title_char (x @ replicate k CHR ''-'' @ y) = x @ replicate k CHR ''-'' @ y"
    using h by (simp add: list_all_iff)
  from h have "video_title_of i = take 50 (filter title_char (replace_space_dash (strip ?s)))"
    by (simp add: video_title_of_def max_length_def)
  then show "video_title_of i = take 50 (x @ replicate k CHR ''-'' @ y)"
    by (simp only: 1 2 3)
next
  assume "title i = Some ''My Video!''"
  then show "video_title_of i = ''My-Video''" by (simp add: title_defs)
qed

theorem video_title_shape_witness:
  "title (example_info Map.empty Map.empty\<lparr>title := Some (''  '' @ ''My Video!'' @ '' '')\<rparr>) =
     Some (''  '' @ ''My Video!'' @ '' '') \<and>
   list_all isspace ''  '' \<and> list_all isspace '' '' \<and>
   \<not> isspace (hd ''My Video!'') \<and> \<not> isspace (last ''My Video!'') \<and>
   video_title_of (example_info Map.empty Map.empty\<lparr>title := Some (''  '' @ ''My Video!'' @ '' '')\<rparr>) =
     ''My-Video'' \<and>
   title (example_info Map.empty Map.empty) = Some ''My Video!'' \<and>
   video_title_of (example_info Map.empty Map.empty) = ''My-Video'' \<and>
   length (video_title_of (example_info Map.empty Map.empty)) \<le> 50 \<and>
   title (example_info Map.empty Map.empty\<lparr>title := None\<rparr>) = None \<and>
   video_title_of (example_info Map.empty Map.empty\<lparr>title := None\<rparr>) = ''video'' \<and>
   title (example_info Map.empty Map.empty\<lparr>title := Some (''a'' @ replicate 2 CHR '' '' @ ''b'')\<rparr>) =
     Some (''a'' @ replicate 2 CHR '' '' @ ''b'') \<and>
   ''a'' \<noteq> [] \<and> ''b'' \<noteq> [] \<and> list_all title_char ''a'' \<and> list_all title_char ''b'' \<and>
   video_title_of (example_info Map.empty Map.empty\<lparr>title := Some (''a'' @ replicate 2 CHR '' '' @ ''b'')\<rparr>) =
     ''a--b''"
proof -
  let ?i = "example_info Map.empty Map.empty"
  let ?p = "?i\<lparr>title := Some (''  '' @ ''My Video!'' @ '' '')\<rparr>"
  let ?n = "?i\<lparr>title := None\<rparr>"
  let ?j = "?i\<lparr>title := Some (''a'' @ replicate 2 CHR '' '' @ ''b'')\<rparr>"
  have h1: "title ?i = Some ''My Video!''" by (simp add: example_info_def)
  have h2: "title ?j = Some (''a'' @ replicate 2 CHR '' '' @ ''b'') \<and> ''a'' \<noteq> [] \<and> ''b'' \<noteq> [] \<and>
            list_all title_char ''a'' \<and> list_all title_char ''b''"
    by (simp add: title_char_def in_range_def)
  have h3: "title ?p = Some (''  '' @ ''My Video!'' @ '' '')" by simp
  have h4: "list_all isspace ''  '' \<and> list_all isspace '' ''" by (simp add: isspace_def)
  have h5: "\<not> isspace (hd ''My Video!'') \<and> \<not> isspace (last ''My Video!'')"
    by (simp add: isspace_def)
  have h6: "title ?n = None" by simp
  note t1 = video_title_shape [of ?i]
  note t2 = video_title_shape [of ?j _ _ _ "''a''" 2 "''b''"]
  note t3 = video_title_shape [of ?p "''  ''" "''My Video!''" "'' ''"]
  note t4 = video_title_shape [of ?n]
  from t1 h1 have r1: "video_title_of ?i = ''My-Video''" by blast
  from t1 have r2: "length (video_title_of ?i) \<le> 50" by blast
  from t2 h2 have "video_title_of ?j = take 50 (''a'' @ replicate 2 CHR ''-'' @ ''b'')" by blast
  also have "\<dots> = ''a--b''" by (simp add: numeral_2_eq_2)
  finally have r4: "video_title_of ?j = ''a--b''" .
  from h4 have h4': "(\<forall>c \<in> set ''  ''. isspace c) \<and> (\<forall>c \<in> set '' ''. isspace c)"
    by (simp add: list_all_iff)
  from t3 h3 h4' h5 have "video_title_of ?p =
      take 50 (concat (map (\<lambda>c. if c = CHR '' '' then ''-''
                                 else if title_char c then [c] else []) ''My Video!''))"
    by blast
  also have "\<dots> = ''My-Video''" by (simp add: title_char_def in_range_def)
  finally have r3: "video_title_of ?p = ''My-Video''" .
  from t4 h6 have r5: "video_title_of ?n = ''video''" by blast
  from h3 h4 h5 r3 h1 r1 r2 h6 r5 h2 r4 show ?thesis by blast
qed

text \<open>
  C6, as stated, fails: whitespace is not collapsed to a single separator. The two spaces of
  the title \<open>a  b\<close> give two dashes.
\<close>

theorem title_spaces_not_collapsed:
  "video_title_of (example_info Map.empty Map.empty\<lparr>title := Some ''a  b''\<rparr>) = ''a--b''"
  by (simp add: example_info_def title_defs)

section \<open>Subtitle availability\<close>

text \<open>
  C1: the selection of step 2 is \<open>UseUserProvided\<close> when the language is a key of the
  user-provided dictionary, otherwise \<open>UseAutoGenerated\<close> when it is a key of the
  auto-generated dictionary, otherwise \<open>Unavailable\<close>. When the language is a key of both, the
  selection is \<open>UseUserProvided\<close>.
\<close>

theorem select_subtitles_policy:
  "availability_of (select_subtitles i language) =
     (if language \<in> dom (subtitles i) then UseUserProvided
      else if language \<in> dom (automatic_captions i) then UseAutoGenerated
      else Unavailable) \<and>
   (language \<in> dom (subtitles i) \<and> language \<in> dom (automatic_captions i) \<longrightarrow>
      availability_of (select_subtitles i language) = UseUserProvided)"
  by (auto simp: select_subtitles_def availability_of_def)

theorem select_subtitles_policy_witness:
  "''en'' \<in> dom (subtitles (example_info [''en'' \<mapsto> [''vtt'']] [''en'' \<mapsto> [''vtt'', ''srv1'']])) \<and>
   ''en'' \<in> dom (automatic_captions (example_info [''en'' \<mapsto> [''vtt'']] [''en'' \<mapsto> [''vtt'', ''srv1'']])) \<and>
   availability_of (select_subtitles (example_info [''en'' \<mapsto> [''vtt'']] [''en'' \<mapsto> [''vtt'', ''srv1'']]) ''en'') = UseUserProvided"
  using select_subtitles_policy [of "example_info [''en'' \<mapsto> [''vtt'']] [''en'' \<mapsto> [''vtt'', ''srv1'']]" "''en''"]
  by (simp add: example_info_def)

section \<open>The pipeline\<close>

lemma subtitle_path_not_dir: "subtitle_path_of video_title language \<noteq> SUBTITLES_DIR"
  by (simp add: subtitle_path_of_def path_join_def)

text \<open>The world after a download that went through, before the expected file is looked for.\<close>

lemma fetch_transcript_downloaded:
  assumes ex: "ydl_extract_info e url = Inr i"
    and sel: "select_subtitles i language = Some sel"
    and dir: "path_exists w SUBTITLES_DIR \<or> makedirs_error e SUBTITLES_DIR = None"
    and dl: "ydl_download e (download_opts (video_title_of i) sel language) url = Inr written"
  shows "\<exists>w4. files w4 = files w ++ written \<and>
           (subtitle_path_of (video_title_of i) language \<in> dirs w4 \<longleftrightarrow>
              subtitle_path_of (video_title_of i) language \<in> dirs w) \<and>
           fetch_transcript e url language w =
             (if \<not> path_exists w4 (subtitle_path_of (video_title_of i) language)
              then (Inr None, w4)
              else (Inr (Some (convert_subtitles_to_text (webvtt_read e w4)
                                 (subtitle_path_of (video_title_of i) language),
                               video_title_of i)),
                    case os_remove e (subtitle_path_of (video_title_of i) language) w4 of
                      Inl err \<Rightarrow> w4 | Inr w' \<Rightarrow> w'))"
proof (cases "path_exists w SUBTITLES_DIR")
  case True
  then have p: "path_exists (w\<lparr>calls := calls w @ [ExtractInfo url]\<rparr>) SUBTITLES_DIR"
    by (simp add: path_exists_def)
  show ?thesis
    by (rule exI [of _ "w\<lparr>calls := calls w @ [ExtractInfo url,
          DownloadSubtitles url (download_opts (video_title_of i) sel language)],
          files := files w ++ written\<rparr>"])
       (simp add: fetch_transcript_def ex sel dl p Let_def cong: sum.case_cong)
next
  case False
  with dir have mk: "makedirs_error e SUBTITLES_DIR = None" by simp
  from False have p: "\<not> path_exists (w\<lparr>calls := calls w @ [ExtractInfo url]\<rparr>) SUBTITLES_DIR"
    by (simp add: path_exists_def)
  show ?thesis
    by (rule exI [of _ "w\<lparr>dirs := insert SUBTITLES_DIR (dirs w),
          calls := calls w @ [ExtractInfo url,
            DownloadSubtitles url (download_opts (video_title_of i) sel language)],
          files := files w ++ written\<rparr>"])
       (simp add: fetch_transcript_def ex sel dl p mk makedirs_def Let_def subtitle_path_not_dir cong: sum.case_cong)
qed

text \<open>
  C7: when the metadata lookup, the selection and the download go through but nothing exists
  at the expected subtitle path, \<open>fetch_transcript\<close> returns \<open>None\<close> and raises nothing,
  \<open>process_url\<close> returns \<open>None\<close> as well, and the files are those that the download left: no
  transcript is written.
\<close>

theorem missing_subtitle_file_fails:
  assumes valid: "is_valid_youtube_url url"
    and ex: "ydl_extract_info e url = Inr i"
    and sel: "select_subtitles i language = Some sel"
    and dir: "path_exists w SUBTITLES_DIR \<or> makedirs_error e SUBTITLES_DIR = None"
    and dl: "ydl_download e (download_opts (video_title_of i) sel language) url = Inr written"
    and nofile: "(files w ++ written) (subtitle_path_of (video_title_of i) language) = None"
    and nodir: "subtitle_path_of (video_title_of i) language \<notin> dirs w"
  shows "fst (fetch_transcript e url language w) = Inr None \<and>
         fst (process_url e url language w) = Inr None \<and>
         files (snd (process_url e url language w)) = files w ++ written"
proof -
  from fetch_transcript_downloaded [OF ex sel dir dl] obtain w4 where
    f: "files w4 = files w ++ written"
    and d: "subtitle_path_of (video_title_of i) language \<in> dirs w4 \<longleftrightarrow>
              subtitle_path_of (video_title_of i) language \<in> dirs w"
    and r: "fetch_transcript e url language w =
             (if \<not> path_exists w4 (subtitle_path_of (video_title_of i) language)
              then (Inr None, w4)
              else (Inr (Some (convert_subtitles_to_text (webvtt_read e w4)
                                 (subtitle_path_of (video_title_of i) language),
                               video_title_of i)),
                    case os_remove e (subtitle_path_of (video_title_of i) language) w4 of
                      Inl err \<Rightarrow> w4 | Inr w' \<Rightarrow> w'))"
    by blast
  from f d nofile nodir
  have "\<not> path_exists w4 (subtitle_path_of (video_title_of i) language)"
    by (simp add: path_exists_def)
  with r have fr: "fetch_transcript e url language w = (Inr None, w4)" by simp
  with valid f show ?thesis by (simp add: process_url_def)
qed

theorem missing_subtitle_file_fails_witness:
  "is_valid_youtube_url ''https://youtu.be/abcdefghijk'' \<and>
   ydl_extract_info (example_env Map.empty []) ''https://youtu.be/abcdefghijk'' =
     Inr (example_info [''en'' \<mapsto> [''vtt'']] Map.empty) \<and>
   select_subtitles (example_info [''en'' \<mapsto> [''vtt'']] Map.empty) ''en'' =
     Some \<lparr>subtitle_type = ''user-provided'', download_subtitles = True,
           write_automaticsub = False\<rparr> \<and>
   video_title_of (example_info [''en'' \<mapsto> [''vtt'']] Map.empty) = ''My-Video'' \<and>
   makedirs_error (example_env Map.empty []) SUBTITLES_DIR = None \<and>
   ydl_download (example_env Map.empty [])
     (download_opts ''My-Video''
        \<lparr>subtitle_type = ''user-provided'', download_subtitles = True,
          write_automaticsub = False\<rparr> ''en'')
     ''https://youtu.be/abcdefghijk'' = Inr Map.empty \<and>
   (files empty_world ++ Map.empty) (subtitle_path_of ''My-Video'' ''en'') = None \<and>
   subtitle_path_of ''My-Video'' ''en'' \<notin> dirs empty_world \<and>
   fst (fetch_transcript (example_env Map.empty []) ''https://youtu.be/abcdefghijk'' ''en''
          empty_world) = Inr None \<and>
   fst (process_url (example_env Map.empty []) ''https://youtu.be/abcdefghijk'' ''en''
          empty_world) = Inr None \<and>
   files (snd (process_url (example_env Map.empty []) ''https://youtu.be/abcdefghijk'' ''en''
                 empty_world)) = Map.empty"
proof -
  let ?e = "example_env Map.empty []"
  let ?u = "''https://youtu.be/abcdefghijk''"
  let ?i = "example_info [''en'' \<mapsto> [''vtt'']] Map.empty"
  let ?s = "\<lparr>subtitle_type = ''user-provided'', download_subtitles = True,
             write_automaticsub = False\<rparr>"
  have h1: "is_valid_youtube_url ?u" by (simp add: url_defs)
  have h2: "ydl_extract_info ?e ?u = Inr ?i" by (simp add: example_env_def)
  have h3: "select_subtitles ?i ''en'' = Some ?s"
    by (simp add: select_subtitles_def example_info_def)
  have t: "video_title_of ?i = ''My-Video''" by (simp add: example_info_def title_defs)
  have h4: "path_exists empty_world SUBTITLES_DIR \<or> makedirs_error ?e SUBTITLES_DIR = None"
    by (simp add: example_env_def)
  have h5: "ydl_download ?e (download_opts (video_title_of ?i) ?s ''en'') ?u = Inr Map.empty"
    by (simp add: example_env_def)
  have h6: "(files empty_world ++ Map.empty) (subtitle_path_of (video_title_of ?i) ''en'') = None"
    by (simp add: empty_world_def)
  have h7: "subtitle_path_of (video_title_of ?i) ''en'' \<notin> dirs empty_world"
    by (simp add: empty_world_def)
  note r = missing_subtitle_file_fails [OF h1 h2 h3 h4 h5 h6 h7]
  from h4 have h4': "makedirs_error ?e SUBTITLES_DIR = None" by (simp add: example_env_def)
  have f: "files empty_world = Map.empty" by (simp add: empty_world_def)
  from r h1 h2 h3 t h4' h5 h6 h7 show ?thesis by (simp add: t f)
qed

text \<open>
  C3, as amended: when the caption file is downloaded and parsed and the normalized text is
  empty, \<open>fetch_transcript\<close> returns the pair of the empty text and the title, and
  \<open>process_url\<close>, for a valid URL, returns \<open>None\<close> and leaves the world as \<open>fetch_transcript\<close>
  left it: apart from the temporary caption file, the files are those that the download left,
  so no transcript is written.
\<close>

theorem empty_transcript_pair_then_none:
  assumes valid: "is_valid_youtube_url url"
    and ex: "ydl_extract_info e url = Inr i"
    and sel: "select_subtitles i language = Some sel"
    and dir: "path_exists w SUBTITLES_DIR \<or> makedirs_error e SUBTITLES_DIR = None"
    and dl: "ydl_download e (download_opts (video_title_of i) sel language) url = Inr written"
    and present: "(files w ++ written) (subtitle_path_of (video_title_of i) language) = Some content"
    and parse: "webvtt_parse e content = Inr captions"
    and empty: "join ''\<newline>'' (collect_transcript 0 captions []) = []"
  shows "fst (fetch_transcript e url language w) = Inr (Some ([], video_title_of i)) \<and>
         process_url e url language w = (Inr None, snd (fetch_transcript e url language w)) \<and>
         (\<forall>p. p \<noteq> subtitle_path_of (video_title_of i) language \<longrightarrow>
            files (snd (process_url e url language w)) p = (files w ++ written) p)"
proof -
  let ?sp = "subtitle_path_of (video_title_of i) language"
  from fetch_transcript_downloaded [OF ex sel dir dl] obtain w4 where
    f: "files w4 = files w ++ written"
    and r: "fetch_transcript e url language w =
             (if \<not> path_exists w4 ?sp
              then (Inr None, w4)
              else (Inr (Some (convert_subtitles_to_text (webvtt_read e w4) ?sp,
                               video_title_of i)),
                    case os_remove e ?sp w4 of Inl err \<Rightarrow> w4 | Inr w' \<Rightarrow> w'))"
    by blast
  from f present have pe: "path_exists w4 ?sp" by (simp add: path_exists_def)
  from f present parse have "webvtt_read e w4 ?sp = Inr captions" by (simp add: webvtt_read_def)
  with empty have c: "convert_subtitles_to_text (webvtt_read e w4) ?sp = []"
    by (simp add: convert_subtitles_to_text_def)
  from r pe c have fr: "fetch_transcript e url language w =
      (Inr (Some ([], video_title_of i)),
       case os_remove e ?sp w4 of Inl err \<Rightarrow> w4 | Inr w' \<Rightarrow> w')" by simp
  have fl: "\<forall>p. p \<noteq> ?sp \<longrightarrow>
      files (case os_remove e ?sp w4 of Inl err \<Rightarrow> w4 | Inr w' \<Rightarrow> w') p = (files w ++ written) p"
    using f by (auto simp: os_remove_def split: option.splits)
  from fr valid have pr: "process_url e url language w =
      (Inr None, case os_remove e ?sp w4 of Inl err \<Rightarrow> w4 | Inr w' \<Rightarrow> w')"
    by (simp add: process_url_def)
  from fr pr fl show ?thesis by simp
qed

theorem empty_transcript_pair_then_none_witness:
  "is_valid_youtube_url ''https://youtu.be/abcdefghijk'' \<and>
   ydl_extract_info (example_env [''temp_subtitles/My-Video.en.vtt'' \<mapsto> ''WEBVTT''] [cue ''<i> </i>'', cue ''Hello''])
     ''https://youtu.be/abcdefghijk'' = Inr (example_info [''en'' \<mapsto> [''vtt'']] Map.empty) \<and>
   video_title_of (example_info [''en'' \<mapsto> [''vtt'']] Map.empty) = ''My-Video'' \<and>
   subtitle_path_of ''My-Video'' ''en'' = ''temp_subtitles/My-Video.en.vtt'' \<and>
   webvtt_parse (example_env [''temp_subtitles/My-Video.en.vtt'' \<mapsto> ''WEBVTT''] [cue ''<i> </i>'', cue ''Hello''])
     ''WEBVTT'' = Inr [cue ''<i> </i>'', cue ''Hello''] \<and>
   join ''\<newline>'' (collect_transcript 0 [cue ''<i> </i>'', cue ''Hello''] []) = [] \<and>
   process_url (example_env [''temp_subtitles/My-Video.en.vtt'' \<mapsto> ''WEBVTT''] [cue ''<i> </i>'', cue ''Hello''])
     ''https://youtu.be/abcdefghijk'' ''en'' empty_world =
   (Inr None,
    snd (fetch_transcript (example_env [''temp_subtitles/My-Video.en.vtt'' \<mapsto> ''WEBVTT''] [cue ''<i> </i>'', cue ''Hello''])
           ''https://youtu.be/abcdefghijk'' ''en'' empty_world)) \<and>
   files (snd (process_url (example_env [''temp_subtitles/My-Video.en.vtt'' \<mapsto> ''WEBVTT''] [cue ''<i> </i>'', cue ''Hello''])
     ''https://youtu.be/abcdefghijk'' ''en'' empty_world)) ''data/transcripts/My-Video.txt'' = None"
proof -
  let ?wr = "[''temp_subtitles/My-Video.en.vtt'' \<mapsto> ''WEBVTT'']"
  let ?cues = "[cue ''<i> </i>'', cue ''Hello'']"
  let ?e = "example_env ?wr ?cues"
  let ?u = "''https://youtu.be/abcdefghijk''"
  let ?i = "example_info [''en'' \<mapsto> [''vtt'']] Map.empty"
  let ?s = "\<lparr>subtitle_type = ''user-provided'', download_subtitles = True,
             write_automaticsub = False\<rparr>"
  have h1: "is_valid_youtube_url ?u" by (simp add: url_defs)
  have h2: "ydl_extract_info ?e ?u = Inr ?i" by (simp add: example_env_def)
  have h3: "select_subtitles ?i ''en'' = Some ?s"
    by (simp add: select_subtitles_def example_info_def)
  have t: "video_title_of ?i = ''My-Video''" by (simp add: example_info_def title_defs)
  have sp: "subtitle_path_of ''My-Video'' ''en'' = ''temp_subtitles/My-Video.en.vtt''"
    by (simp add: subtitle_path_of_def path_join_def SUBTITLES_DIR_def)
  have h4: "path_exists empty_world SUBTITLES_DIR \<or> makedirs_error ?e SUBTITLES_DIR = None"
    by (simp add: example_env_def)
  have h5: "ydl_download ?e (download_opts (video_title_of ?i) ?s ''en'') ?u = Inr ?wr"
    by (simp add: example_env_def)
  have h6: "(files empty_world ++ ?wr) (subtitle_path_of (video_title_of ?i) ''en'') = Some ''WEBVTT''"
    by (simp add: t sp)
  have h7: "webvtt_parse ?e ''WEBVTT'' = Inr ?cues" by (simp add: example_env_def)
  have h8: "join ''\<newline>'' (collect_transcript 0 ?cues []) = []"
    by (simp add: cue_def clean_text_def strip_def isspace_def)
  note r = empty_transcript_pair_then_none [OF h1 h2 h3 h4 h5 h6 h7 h8]
  have ne: "''data/transcripts/My-Video.txt'' \<noteq> subtitle_path_of (video_title_of ?i) ''en''"
    by (simp add: t sp)
  from r ne have "files (snd (process_url ?e ?u ''en'' empty_world)) ''data/transcripts/My-Video.txt''
      = (files empty_world ++ ?wr) ''data/transcripts/My-Video.txt''" by blast
  also have "\<dots> = None" by (simp add: empty_world_def)
  finally have r2: "files (snd (process_url ?e ?u ''en'' empty_world)) ''data/transcripts/My-Video.txt'' = None" .
  from r have r1: "process_url ?e ?u ''en'' empty_world =
      (Inr None, snd (fetch_transcript ?e ?u ''en'' empty_world))" by blast
  from h1 h2 t sp h7 h8 r1 r2 show ?thesis by blast
qed

text \<open>
  C3, as stated, fails: for a caption file whose cues are all filtered out,
  \<open>fetch_transcript\<close> returns a pair that carries the empty transcript.
\<close>

theorem empty_transcript_returned_as_pair:
  "fst (fetch_transcript
          (example_env [''temp_subtitles/My-Video.en.vtt'' \<mapsto> ''WEBVTT'']
             [cue ''<i> </i>'', cue ''Hello''])
          ''https://youtu.be/abcdefghijk'' ''en'' empty_world) =
     Inr (Some ([], ''My-Video''))"
  by (simp add: pipeline_defs title_defs clean_text_def Let_def)

end
